theory Spec2Isabelle
  imports Complex_Main "HOL-Library.Word" "HOL-Library.Sublist"
begin

unbundle bit_operations_syntax

section \<open>JavaScript strings\<close>

text \<open>
  A JavaScript string is a sequence of code units. The model keeps the code units
  below 256 (Latin-1), one \<^typ>\<open>char\<close> each. A property that may be missing from an
  object is a \<^typ>\<open>string option\<close>, \<open>None\<close> standing for \<open>undefined\<close>.
\<close>

type_synonym jsstring = "string option"

text \<open>A template literal prints \<open>undefined\<close> for a missing value.\<close>

fun str :: "jsstring \<Rightarrow> string" where
  "str None = ''undefined''"
| "str (Some s) = s"

text \<open>
  \<open>String.prototype.toLowerCase\<close> on Latin-1: the letters A to Z and the accented
  capitals 0xC0 to 0xDE (the multiplication sign 0xD7 apart) move up by 32.
\<close>

definition lowerChar :: "char \<Rightarrow> char" where
  "lowerChar c =
     (let n = (of_char c :: nat)
      in if (65 \<le> n \<and> n \<le> 90) \<or> (192 \<le> n \<and> n \<le> 222 \<and> n \<noteq> 215)
         then char_of (n + 32) else c)"

definition toLowerCase :: "string \<Rightarrow> string" where
  "toLowerCase s = map lowerChar s"

text \<open>\<open>String.prototype.includes\<close>: the argument occurs as a contiguous run.\<close>

fun includesStr :: "string \<Rightarrow> string \<Rightarrow> bool" where
  "includesStr [] q = (q = [])"
| "includesStr (c # cs) q = (prefix q (c # cs) \<or> includesStr cs q)"

text \<open>
  \<open>String.prototype.trim\<close> removes white space and line terminators from both ends;
  below 256 these are TAB, LF, VT, FF, CR, SPACE and NBSP.
\<close>

definition isWhiteSpace :: "char \<Rightarrow> bool" where
  "isWhiteSpace c =
     (let n = (of_char c :: nat) in (9 \<le> n \<and> n \<le> 13) \<or> n = 32 \<or> n = 160)"

definition trim :: "string \<Rightarrow> string" where
  "trim s = rev (dropWhile isWhiteSpace (rev (dropWhile isWhiteSpace s)))"

section \<open>The data model of \<open>types.ts\<close>\<close>

text \<open>
  Identifiers come from \<open>generateSafeId\<close> (a random UUID); the model draws them from
  a counter kept in the session. The tool arguments are untyped in the source
  (\<open>args: any\<close>), so a title, a date or a content copied from them may be missing.
\<close>

type_synonym ident = nat

record Todo =
  todo_id :: ident
  todo_title :: jsstring
  completed :: bool
  dueDate :: jsstring
  priority :: jsstring
  createdAt :: nat

record Note =
  note_id :: ident
  note_title :: jsstring
  content :: jsstring
  updatedAt :: nat

record CalendarEvent =
  event_id :: ident
  event_title :: jsstring
  date :: jsstring
  startTime :: jsstring
  endTime :: jsstring
  location :: jsstring
  description :: jsstring

record ProductivityState =
  todos :: "Todo list"
  "notes" :: "Note list"
  events :: "CalendarEvent list"
  language :: jsstring
  theme :: jsstring

section \<open>The state of the voice assistant\<close>

datatype logType = Success | Error | Info | Tool

record ActionLog =
  log_id :: ident
  log_message :: string
  log_type :: logType
  toolName :: jsstring
  log_timestamp :: nat

record ConversationTurn =
  turn_id :: ident
  user :: string
  ai :: string
  turn_timestamp :: nat

record ToastMessage =
  toast_id :: ident
  toast_message :: string
  toast_type :: logType

datatype status = Idle | Connecting | Listening | Speaking

text \<open>The \<open>functionResponses\<close> object handed to \<open>session.sendToolResponse\<close>.\<close>

record FunctionResponse =
  response_id :: jsstring
  response_name :: string
  response_result :: string

text \<open>The exceptions that the code can meet, each with its message.\<close>

datatype jsError = TypeError string | RangeError string | NotSupportedError string
  | InvalidCharacterError string

fun err_message :: "jsError \<Rightarrow> string" where
  "err_message (TypeError m) = m"
| "err_message (RangeError m) = m"
| "err_message (NotSupportedError m) = m"
| "err_message (InvalidCharacterError m) = m"

text \<open>
  The session gathers the React state of the overlay (\<open>isActive\<close>, \<open>status\<close>,
  \<open>userSpeech\<close>, \<open>aiSpeech\<close>, \<open>actionLogs\<close>, \<open>history\<close>, \<open>toast\<close>), its
  refs (\<open>nextStartTimeRef\<close>, \<open>sourcesRef\<close>), the application state it reaches through
  \<open>updateState\<close>, and what it has done to the outside: the calls of
  \<open>source.start\<close> (start time and buffer duration, in call order), the reactions
  registered on \<open>sessionPromise\<close> that have not run yet, and the tool responses that
  have been sent. A source node is named by the position of its \<open>start\<close> call.
  Times of the audio clock are seconds; every floating-point number is a rational, and
  the model computes with rationals exactly, without rounding. \<open>appState\<close> is the
  application state with every updater applied that has been handed to
  \<open>updateState\<close>: the state that the next render of the application shell shows.
  \<open>updatePending\<close> says that the shell has an update that no render has taken up
  yet, and \<open>renderError\<close> keeps the exception that the next render throws.
\<close>

record session =
  isActive :: bool
  status :: status
  userSpeech :: string
  aiSpeech :: string
  actionLogs :: "ActionLog list"
  history :: "ConversationTurn list"
  toast :: "ToastMessage option"
  nextStartTime :: rat
  sources :: "nat list"
  started :: "(rat \<times> rat) list"
  appState :: ProductivityState
  updatePending :: bool
  renderError :: "jsError option"
  pendingSends :: "FunctionResponse list"
  sent :: "FunctionResponse list"
  idSupply :: nat

definition generateSafeId :: "session \<Rightarrow> ident \<times> session" where
  "generateSafeId s = (idSupply s, s\<lparr>idSupply := Suc (idSupply s)\<rparr>)"

text \<open>
  \<open>updateState\<close> is \<open>setState(prev => updater(prev))\<close> in the application shell.
  React applies the updaters in the order of the calls, each to the state that the one
  before has left. It runs an updater before the call returns only when the shell has
  no update pending (\<open>updaterRunsAtOnce\<close>); otherwise it runs it at the next render,
  so that what the updater assigns to a variable of the caller (\<open>found\<close>) is not
  there when the call returns. An exception of the updater never reaches the caller:
  React keeps it for the render, which throws it. The model records the first such
  exception and leaves the application state as it was; it does not follow the shell
  beyond a render that throws.
\<close>

definition updaterRunsAtOnce :: "session \<Rightarrow> bool" where
  "updaterRunsAtOnce s = (\<not> updatePending s)"

definition updateState :: "(ProductivityState \<Rightarrow> jsError + ProductivityState) \<Rightarrow> session \<Rightarrow> session" where
  "updateState updater s =
     (case updater (appState s) of
        Inr next \<Rightarrow> s\<lparr>appState := next, updatePending := True\<rparr>
      | Inl e \<Rightarrow>
          s\<lparr>updatePending := True,
            renderError := (case renderError s of None \<Rightarrow> Some e | Some first \<Rightarrow> Some first)\<rparr>)"

text \<open>
  The render of the shell that takes up its pending updates.
\<close>

definition shellRendered :: "session \<Rightarrow> session" where
  "shellRendered s = s\<lparr>updatePending := False\<rparr>"

subsection \<open>\<open>addLog\<close> and \<open>addToHistory\<close>\<close>

text \<open>
  The first argument is the value of \<open>Date.now()\<close>. The timer that clears the toast
  after four seconds is \<open>toastTimeout\<close>.
\<close>

definition addLog :: "nat \<Rightarrow> string \<Rightarrow> logType \<Rightarrow> jsstring \<Rightarrow> session \<Rightarrow> session" where
  "addLog now message type tool s =
     (let (i, s1) = generateSafeId s;
          newLog = \<lparr>log_id = i, log_message = message, log_type = type,
                    toolName = tool, log_timestamp = now\<rparr>;
          s2 = s1\<lparr>actionLogs := take 15 (newLog # actionLogs s1)\<rparr>
      in if type = Success \<or> type = Error
         then (let (toastId, s3) = generateSafeId s2
               in s3\<lparr>toast := Some \<lparr>toast_id = toastId, toast_message = message,
                                     toast_type = type\<rparr>\<rparr>)
         else s2)"

definition toastTimeout :: "ident \<Rightarrow> session \<Rightarrow> session" where
  "toastTimeout toastId s =
     (case toast s of
        None \<Rightarrow> s
      | Some current \<Rightarrow> if toast_id current = toastId then s\<lparr>toast := None\<rparr> else s)"

definition addToHistory :: "nat \<Rightarrow> string \<Rightarrow> string \<Rightarrow> session \<Rightarrow> session" where
  "addToHistory now u a s =
     (if trim u = [] \<and> trim a = [] then s
      else (let (i, s1) = generateSafeId s;
                newTurn = \<lparr>turn_id = i, user = u, ai = a, turn_timestamp = now\<rparr>
            in s1\<lparr>history := take 5 (newTurn # history s1)\<rparr>))"

section \<open>The tool dispatcher\<close>

text \<open>
  The arguments of a tool call: the properties that \<open>toolDeclarations\<close> names, each
  a string when the request carries it.
\<close>

record toolArgs =
  arg_theme :: jsstring
  arg_language :: jsstring
  arg_title :: jsstring
  arg_dueDate :: jsstring
  arg_priority :: jsstring
  arg_content :: jsstring
  arg_date :: jsstring
  arg_startTime :: jsstring
  arg_location :: jsstring
  arg_description :: jsstring
  arg_type :: jsstring

record FunctionCall =
  fc_id :: jsstring
  fc_name :: string
  fc_args :: toolArgs

text \<open>
  Calling \<open>toLowerCase\<close> on \<open>undefined\<close> throws a \<open>TypeError\<close>; the message is
  the engine's (here V8's).
\<close>
definition toLowerCaseOf :: "jsstring \<Rightarrow> jsError + string" where
  "toLowerCaseOf v =
     (case v of
        None \<Rightarrow> Inl (TypeError ''Cannot read properties of undefined (reading 'toLowerCase')'')
      | Some s \<Rightarrow> Inr (toLowerCase s))"

text \<open>
  \<open>t.title.toLowerCase().includes(title.toLowerCase())\<close>: the receiver is evaluated
  first, then the argument.
\<close>

definition titleIncludes :: "jsstring \<Rightarrow> jsstring \<Rightarrow> jsError + bool" where
  "titleIncludes itemTitle title =
     (case toLowerCaseOf itemTitle of
        Inl e \<Rightarrow> Inl e
      | Inr t \<Rightarrow> (case toLowerCaseOf title of
                    Inl e \<Rightarrow> Inl e
                  | Inr q \<Rightarrow> Inr (includesStr t q)))"

text \<open>
  \<open>Array.prototype.filter\<close> and \<open>map\<close> with a callback that may throw: the first
  exception ends the traversal. \<open>filterNot\<close> keeps the items for which the callback's
  test is false, as \<open>filter(t => !test(t))\<close> does. The callback of \<open>mapFound\<close>
  sets \<open>found\<close> at each item that passes the test: the second component is the value
  of \<open>found\<close> when the traversal ends, by its last item or by an exception.
\<close>

fun filterNot :: "('a \<Rightarrow> jsError + bool) \<Rightarrow> 'a list \<Rightarrow> jsError + 'a list" where
  "filterNot test [] = Inr []"
| "filterNot test (x # xs) =
     (case test x of
        Inl e \<Rightarrow> Inl e
      | Inr b \<Rightarrow> (case filterNot test xs of
                    Inl e \<Rightarrow> Inl e
                  | Inr ys \<Rightarrow> Inr (if b then ys else x # ys)))"

fun mapFound :: "('a \<Rightarrow> jsError + bool) \<Rightarrow> ('a \<Rightarrow> 'a) \<Rightarrow> 'a list \<Rightarrow> (jsError + 'a list) \<times> bool" where
  "mapFound test change [] = (Inr [], False)"
| "mapFound test change (x # xs) =
     (case test x of
        Inl e \<Rightarrow> (Inl e, False)
      | Inr b \<Rightarrow> (case mapFound test change xs of
                    (Inl e, found) \<Rightarrow> (Inl e, b \<or> found)
                  | (Inr ys, found) \<Rightarrow> (Inr ((if b then change x else x) # ys), b \<or> found)))"

text \<open>
  The updaters of \<open>deleteItem\<close> and of \<open>markTodoComplete\<close>: what the updater returns
  or throws, and the value that its run leaves in \<open>found\<close>. \<open>deleteItem\<close> assigns
  \<open>found\<close> after the filter has returned.
\<close>

definition deleteItemUpdater :: "jsstring \<Rightarrow> jsstring \<Rightarrow> ProductivityState \<Rightarrow> (jsError + ProductivityState) \<times> bool" where
  "deleteItemUpdater type title prev =
     (if type = Some ''todo'' then
        (case filterNot (\<lambda>t. titleIncludes (todo_title t) title) (todos prev) of
           Inl e \<Rightarrow> (Inl e, False)
         | Inr filtered \<Rightarrow>
             (Inr (prev\<lparr>todos := filtered\<rparr>), length filtered < length (todos prev)))
      else if type = Some ''note'' then
        (case filterNot (\<lambda>n. titleIncludes (note_title n) title) (notes prev) of
           Inl e \<Rightarrow> (Inl e, False)
         | Inr filtered \<Rightarrow>
             (Inr (prev\<lparr>notes := filtered\<rparr>), length filtered < length (notes prev)))
      else if type = Some ''event'' then
        (case filterNot (\<lambda>e. titleIncludes (event_title e) title) (events prev) of
           Inl e \<Rightarrow> (Inl e, False)
         | Inr filtered \<Rightarrow>
             (Inr (prev\<lparr>events := filtered\<rparr>), length filtered < length (events prev)))
      else (Inr prev, False))"

definition markTodoCompleteUpdater :: "jsstring \<Rightarrow> ProductivityState \<Rightarrow> (jsError + ProductivityState) \<times> bool" where
  "markTodoCompleteUpdater title prev =
     (case mapFound (\<lambda>t. titleIncludes (todo_title t) title) (\<lambda>t. t\<lparr>completed := True\<rparr>)
             (todos prev) of
        (Inl e, found) \<Rightarrow> (Inl e, found)
      | (Inr changed, found) \<Rightarrow> (Inr (prev\<lparr>todos := changed\<rparr>), found))"

text \<open>
  The body of the \<open>try\<close> block of \<open>handleToolCall\<close>. \<open>json\<close> is
  \<open>JSON.stringify\<close> and \<open>state\<close> the application state that the callback has
  captured from the component's props; \<open>now\<close> is the value of \<open>Date.now()\<close>. Of
  the spread \<open>...args\<close>, a new event keeps the properties that \<open>CalendarEvent\<close>
  declares. \<open>deleteItem\<close> and \<open>markTodoComplete\<close> read \<open>found\<close> when
  \<open>updateState\<close> has returned: it holds what the updater has assigned when React
  has run the updater at once, and is still false otherwise. With arguments that are
  an object nothing in the block throws outside the updaters, whose exceptions are
  React's.
\<close>

definition toolBody :: "(ProductivityState \<Rightarrow> string) \<Rightarrow> ProductivityState \<Rightarrow> nat \<Rightarrow> string \<Rightarrow> toolArgs \<Rightarrow> session \<Rightarrow> jsError + (string \<times> session)" where
  \<open>toolBody json state now name args s =
     (if name = ''getWorkspaceData'' then Inr (json state, s)
      else if name = ''setTheme'' then
        (let theme = arg_theme args
         in if theme = Some ''light'' \<or> theme = Some ''dark'' then
              (let s1 = updateState (\<lambda>prev. Inr (prev\<lparr>theme := theme\<rparr>)) s;
                   s2 = addLog now (''Theme Updated: '' @ str theme @ '' mode'') Success None s1
               in Inr (''OK: Switched to '' @ str theme @ '' mode.'', s2))
            else Inr (''Error: Invalid theme specified.'', s))
      else if name = ''setLanguage'' then
        (let language = arg_language args;
             s1 = updateState (\<lambda>prev. Inr (prev\<lparr>language := language\<rparr>)) s;
             s2 = addLog now (''Language Changed: '' @ str language) Success None s1
         in Inr (''OK: Language changed to '' @ str language @ ''.'', s2))
      else if name = ''addTodo'' then
        (let (i, s1) = generateSafeId s;
             newTodo = \<lparr>todo_id = i, todo_title = arg_title args, completed = False,
                        dueDate = arg_dueDate args, priority = arg_priority args,
                        createdAt = now\<rparr>;
             s2 = updateState (\<lambda>prev. Inr (prev\<lparr>todos := newTodo # todos prev\<rparr>)) s1;
             s3 = addLog now (''Task Added: "'' @ str (arg_title args) @ ''"'') Success None s2
         in Inr (''OK: Added task "'' @ str (arg_title args) @ ''".'', s3))
      else if name = ''addNote'' then
        (let (i, s1) = generateSafeId s;
             newNote = \<lparr>note_id = i, note_title = arg_title args,
                        content = arg_content args, updatedAt = now\<rparr>;
             s2 = updateState (\<lambda>prev. Inr (prev\<lparr>notes := newNote # notes prev\<rparr>)) s1;
             s3 = addLog now (''Note Saved: "'' @ str (arg_title args) @ ''"'') Success None s2
         in Inr (''OK: Saved note "'' @ str (arg_title args) @ ''".'', s3))
      else if name = ''addEvent'' then
        (let (i, s1) = generateSafeId s;
             newEvent = \<lparr>event_id = i, event_title = arg_title args, date = arg_date args,
                         startTime = arg_startTime args, endTime = None,
                         location = arg_location args, description = arg_description args\<rparr>;
             s2 = updateState (\<lambda>prev. Inr (prev\<lparr>events := events prev @ [newEvent]\<rparr>)) s1;
             s3 = addLog now (''Event Scheduled: "'' @ str (arg_title args) @ ''"'') Success None s2
         in Inr (''OK: Scheduled "'' @ str (arg_title args) @ ''" for '' @ str (arg_date args)
                 @ '' at '' @ str (arg_startTime args) @ ''.'', s3))
      else if name = ''deleteItem'' then
        (let type = arg_type args; title = arg_title args;
             found = (updaterRunsAtOnce s \<and> snd (deleteItemUpdater type title (appState s)));
             s1 = updateState (\<lambda>prev. fst (deleteItemUpdater type title prev)) s
         in if \<not> found then Inr (''Error: Item "'' @ str title @ ''" not found.'', s1)
            else Inr (''OK: Removed '' @ str type @ '' "'' @ str title @ ''".'',
                      addLog now (''Removed: '' @ str type) Success None s1))
      else if name = ''markTodoComplete'' then
        (let found = (updaterRunsAtOnce s \<and>
                      snd (markTodoCompleteUpdater (arg_title args) (appState s)));
             s1 = updateState (\<lambda>prev. fst (markTodoCompleteUpdater (arg_title args) prev)) s
         in if \<not> found then Inr (''Error: Task "'' @ str (arg_title args) @ ''" not found.'', s1)
            else Inr (''OK: Marked "'' @ str (arg_title args) @ ''" as done.'',
                      addLog now (''Completed: "'' @ str (arg_title args) @ ''"'') Success None s1))
      else Inr (''OK'', s))\<close>

text \<open>
  \<open>handleToolCall\<close>: the \<open>tool\<close> log entry, the \<open>try\<close> block, and the \<open>catch\<close>
  that logs the exception and returns it as text.
\<close>

definition handleToolCall :: "(ProductivityState \<Rightarrow> string) \<Rightarrow> ProductivityState \<Rightarrow> nat \<Rightarrow> FunctionCall \<Rightarrow> session \<Rightarrow> string \<times> session" where
  "handleToolCall json state now fc s =
     (let name = fc_name fc; args = fc_args fc;
          s1 = addLog now (''Agent: Executing '' @ name) Tool (Some name) s
      in case toolBody json state now name args s1 of
           Inr r \<Rightarrow> r
         | Inl err \<Rightarrow> (''Error: '' @ err_message err,
                       addLog now (''Error: '' @ err_message err) Error None s1))"

section \<open>Base64 and PCM\<close>

text \<open>
  \<open>btoa\<close> and \<open>atob\<close> are the browser's: the standard alphabet with padding, and
  the forgiving decoder that drops ASCII white space and accepts missing padding.
\<close>

definition b64chars :: string where
  "b64chars = ''ABCDEFGHIJKLMNOPQRSTUVWXYZabcdefghijklmnopqrstuvwxyz0123456789+/''"

definition b64char :: "nat \<Rightarrow> char" where
  "b64char n = b64chars ! (n mod 64)"

fun btoa :: "string \<Rightarrow> string" where
  "btoa [] = []"
| "btoa [a] =
     (let x = (of_char a :: nat)
      in [b64char (x div 4), b64char ((x mod 4) * 16), CHR ''='', CHR ''=''])"
| "btoa [a, b] =
     (let x = (of_char a :: nat); y = (of_char b :: nat)
      in [b64char (x div 4), b64char ((x mod 4) * 16 + y div 16),
          b64char ((y mod 16) * 4), CHR ''=''])"
| "btoa (a # b # c # rest) =
     (let x = (of_char a :: nat); y = (of_char b :: nat); z = (of_char c :: nat)
      in [b64char (x div 4), b64char ((x mod 4) * 16 + y div 16),
          b64char ((y mod 16) * 4 + z div 64), b64char (z mod 64)] @ btoa rest)"

fun indexOf :: "char \<Rightarrow> string \<Rightarrow> nat option" where
  "indexOf c [] = None"
| "indexOf c (x # xs) =
     (if c = x then Some 0 else map_option Suc (indexOf c xs))"

definition b64value :: "char \<Rightarrow> nat option" where
  "b64value c = indexOf c b64chars"

fun sextetsToBytes :: "nat list \<Rightarrow> nat list" where
  "sextetsToBytes (a # b # c # d # rest) =
     [a * 4 + b div 16, (b mod 16) * 16 + c div 4, (c mod 4) * 64 + d] @ sextetsToBytes rest"
| "sextetsToBytes [a, b, c] = [a * 4 + b div 16, (b mod 16) * 16 + c div 4]"
| "sextetsToBytes [a, b] = [a * 4 + b div 16]"
| "sextetsToBytes _ = []"

definition isAsciiWhitespace :: "char \<Rightarrow> bool" where
  "isAsciiWhitespace c = (c \<in> set [CHR 0x09, CHR 0x0A, CHR 0x0C, CHR 0x0D, CHR '' ''])"

definition stripPadding :: "string \<Rightarrow> string" where
  "stripPadding d =
     (if length d mod 4 \<noteq> 0 then d
      else if d \<noteq> [] \<and> last d = CHR ''='' then
        (let d1 = butlast d
         in if d1 \<noteq> [] \<and> last d1 = CHR ''='' then butlast d1 else d1)
      else d)"

definition atob :: "string \<Rightarrow> jsError + string" where
  "atob base64 =
     (let d = stripPadding (filter (\<lambda>c. \<not> isAsciiWhitespace c) base64)
      in if length d mod 4 = 1 \<or> (\<exists>c \<in> set d. b64value c = None)
         then Inl (InvalidCharacterError ''The string to be decoded is not correctly encoded.'')
         else Inr (map char_of (sextetsToBytes (map (\<lambda>c. the (b64value c)) d))))"

type_synonym byte = "8 word"

text \<open>\<open>encode\<close> and \<open>decode\<close> of the overlay: bytes to Base64 text and back.\<close>

definition encode :: "byte list \<Rightarrow> string" where
  "encode bytes = btoa (map (\<lambda>b. char_of (unat b)) bytes)"

definition decode :: "string \<Rightarrow> jsError + byte list" where
  "decode base64 =
     (case atob base64 of
        Inl e \<Rightarrow> Inl e
      | Inr binaryString \<Rightarrow> Inr (map (\<lambda>c. of_nat (of_char c)) binaryString))"

text \<open>
  Typed arrays over a shared buffer, little-endian: \<open>new Uint8Array(int16.buffer)\<close> and
  \<open>new Int16Array(data.buffer)\<close>; the latter wants an even number of bytes.
\<close>

fun int16Bytes :: "16 word list \<Rightarrow> byte list" where
  "int16Bytes [] = []"
| "int16Bytes (w # ws) = ucast w # ucast (drop_bit 8 w) # int16Bytes ws"

fun bytesInt16 :: "byte list \<Rightarrow> 16 word list" where
  "bytesInt16 (lo # hi # rest) = (push_bit 8 (ucast hi) OR ucast lo) # bytesInt16 rest"
| "bytesInt16 _ = []"

text \<open>
  Storing a number into an \<open>Int16Array\<close>: the fraction is cut off towards zero and the
  integer is reduced modulo \<open>2^16\<close>.
\<close>

definition truncToInt :: "rat \<Rightarrow> int" where
  "truncToInt x = (if 0 \<le> x then \<lfloor>x\<rfloor> else \<lceil>x\<rceil>)"

definition toInt16 :: "rat \<Rightarrow> 16 word" where
  "toInt16 x = word_of_int (truncToInt x)"

record Blob =
  blob_data :: string
  mimeType :: string

text \<open>
  \<open>onaudioprocess\<close>: a frame of samples (32-bit floats, each an exact rational) becomes
  the media blob that is sent as real-time input.
\<close>

definition onaudioprocess :: "rat list \<Rightarrow> Blob" where
  "onaudioprocess inputData =
     (let int16 = map (\<lambda>x. toInt16 (x * 32768)) inputData
      in \<lparr>blob_data = encode (int16Bytes int16), mimeType = ''audio/pcm;rate=16000''\<rparr>)"

record AudioBuffer =
  channelData :: "rat list"
  sampleRate :: nat

definition duration :: "AudioBuffer \<Rightarrow> rat" where
  "duration buffer = of_nat (length (channelData buffer)) / of_nat (sampleRate buffer)"

text \<open>
  \<open>decodeAudioData\<close> for one channel, as the overlay calls it. \<open>createBuffer\<close>
  rejects a buffer with no frame.
\<close>

definition decodeAudioData :: "byte list \<Rightarrow> nat \<Rightarrow> jsError + AudioBuffer" where
  "decodeAudioData data rate =
     (if odd (length data)
      then Inl (RangeError ''byte length of Int16Array should be a multiple of 2'')
      else (let dataInt16 = bytesInt16 data; frameCount = length dataInt16
            in if frameCount = 0
               then Inl (NotSupportedError ''The number of frames provided (0) is less than or equal to the minimum bound (0).'')
               else Inr \<lparr>channelData = map (\<lambda>w. of_int (sint w) / 32768) dataInt16,
                         sampleRate = rate\<rparr>))"

section \<open>The session controller\<close>

text \<open>
  What \<open>onmessage\<close> reads of a \<open>LiveServerMessage\<close>: the transcriptions (present
  or not, each with its \<open>text\<close>), \<open>turnComplete\<close>, the Base64 data of the first part
  of the model turn, the function calls of \<open>toolCall\<close>, and \<open>interrupted\<close>.
\<close>

record LiveServerMessage =
  inputTranscription :: "jsstring option"
  outputTranscription :: "jsstring option"
  turnComplete :: bool
  audioData :: "string option"
  toolCall :: "FunctionCall list option"
  interrupted :: bool

definition appendTranscriptions :: "LiveServerMessage \<Rightarrow> session \<Rightarrow> session" where
  "appendTranscriptions m s =
     (let s1 = (case inputTranscription m of
                  None \<Rightarrow> s
                | Some t \<Rightarrow> s\<lparr>userSpeech := userSpeech s @ str t\<rparr>)
      in case outputTranscription m of
           None \<Rightarrow> s1
         | Some t \<Rightarrow> s1\<lparr>aiSpeech := aiSpeech s1 @ str t\<rparr>)"

text \<open>The nested setters of the \<open>turnComplete\<close> branch.\<close>

definition turnCompleteFlush :: "nat \<Rightarrow> session \<Rightarrow> session" where
  "turnCompleteFlush now s =
     (addToHistory now (userSpeech s) (aiSpeech s) s)\<lparr>aiSpeech := [], userSpeech := []\<rparr>"

text \<open>
  The audio branch, before and after the \<open>await\<close>. \<open>currentTime\<close> is the reading of
  \<open>outputCtx.currentTime\<close>.
\<close>

definition beginAudio :: "rat \<Rightarrow> session \<Rightarrow> session" where
  "beginAudio currentTime s =
     s\<lparr>status := Speaking, nextStartTime := max (nextStartTime s) currentTime\<rparr>"

definition startSource :: "AudioBuffer \<Rightarrow> session \<Rightarrow> session" where
  "startSource buffer s =
     s\<lparr>started := started s @ [(nextStartTime s, duration buffer)],
       nextStartTime := nextStartTime s + duration buffer,
       sources := sources s @ [length (started s)]\<rparr>"

text \<open>
  The tool-call loop. \<open>sessionPromise.then\<close> registers the sending of the response; the
  reaction runs once the handler has given control back (\<open>runPendingSends\<close>).
\<close>

definition toolCallStep :: "(ProductivityState \<Rightarrow> string) \<Rightarrow> ProductivityState \<Rightarrow> nat \<Rightarrow> FunctionCall \<Rightarrow> session \<Rightarrow> session" where
  "toolCallStep json state now fc s =
     (let (result, s1) = handleToolCall json state now fc s
      in s1\<lparr>pendingSends := pendingSends s1 @
               [\<lparr>response_id = fc_id fc, response_name = fc_name fc,
                 response_result = result\<rparr>]\<rparr>)"

fun toolCallLoop :: "(ProductivityState \<Rightarrow> string) \<Rightarrow> ProductivityState \<Rightarrow> nat \<Rightarrow> FunctionCall list \<Rightarrow> session \<Rightarrow> session" where
  "toolCallLoop json state now [] s = s"
| "toolCallLoop json state now (fc # fcs) s =
     toolCallLoop json state now fcs (toolCallStep json state now fc s)"

definition runPendingSends :: "session \<Rightarrow> session" where
  "runPendingSends s = s\<lparr>sent := sent s @ pendingSends s, pendingSends := []\<rparr>"

definition onInterrupted :: "session \<Rightarrow> session" where
  "onInterrupted s = s\<lparr>sources := [], nextStartTime := 0\<rparr>"

definition afterAudio :: "(ProductivityState \<Rightarrow> string) \<Rightarrow> ProductivityState \<Rightarrow> nat \<Rightarrow> LiveServerMessage \<Rightarrow> session \<Rightarrow> session" where
  "afterAudio json state now m s =
     (let s1 = (case toolCall m of
                  None \<Rightarrow> s
                | Some functionCalls \<Rightarrow> toolCallLoop json state now functionCalls s)
      in if interrupted m then onInterrupted s1 else s1)"

text \<open>
  The decoding of a chunk: \<open>decodeAudioData(decode(audioData), outputCtx, 24000, 1)\<close>.
\<close>

definition decodeChunk :: "string \<Rightarrow> jsError + AudioBuffer" where
  "decodeChunk base64 =
     (case decode base64 of
        Inl e \<Rightarrow> Inl e
      | Inr bytes \<Rightarrow> decodeAudioData bytes 24000)"

text \<open>
  \<open>onmessage\<close>, run to the end of the handler. An exception in the decoding rejects
  the handler's promise: the rest of the handler is skipped.
\<close>

definition onmessage :: "(ProductivityState \<Rightarrow> string) \<Rightarrow> ProductivityState \<Rightarrow> rat \<Rightarrow> nat \<Rightarrow> LiveServerMessage \<Rightarrow> session \<Rightarrow> session" where
  "onmessage json state currentTime now m s =
     (let s1 = appendTranscriptions m s;
          s2 = (if turnComplete m then turnCompleteFlush now s1 else s1)
      in case audioData m of
           None \<Rightarrow> afterAudio json state now m s2
         | Some base64 \<Rightarrow>
             if base64 = [] then afterAudio json state now m s2
             else (let s3 = beginAudio currentTime s2
                   in case decodeChunk base64 of
                        Inl e \<Rightarrow> s3
                      | Inr buffer \<Rightarrow> afterAudio json state now m (startSource buffer s3)))"

text \<open>The \<open>ended\<close> listener of a source node.\<close>

definition onEnded :: "nat \<Rightarrow> session \<Rightarrow> session" where
  "onEnded source s =
     (let remaining = removeAll source (sources s)
      in s\<lparr>sources := remaining,
           status := (if remaining = [] then Listening else status s)\<rparr>)"

text \<open>
  The events of a session: each runs one callback to its end, then the reactions it
  has registered; \<open>ShellRendered\<close> is the render of the application shell.
\<close>

datatype event =
    StartSession
  | InitFailure nat
  | OnOpen nat
  | OnMessage rat nat LiveServerMessage
  | OnError nat
  | OnClose nat
  | SourceEnded nat
  | ToastTimeout ident
  | StopSession
  | ShellRendered

fun step :: "(ProductivityState \<Rightarrow> string) \<Rightarrow> ProductivityState \<Rightarrow> event \<Rightarrow> session \<Rightarrow> session" where
  "step json state StartSession s = s\<lparr>status := Connecting\<rparr>"
| "step json state (InitFailure now) s = addLog now ''Init Failure.'' Error None (s\<lparr>status := Idle\<rparr>)"
| "step json state (OnOpen now) s =
     addLog now ''Link Optimized.'' Info None (s\<lparr>status := Listening, isActive := True\<rparr>)"
| "step json state (OnMessage currentTime now m) s =
     runPendingSends (onmessage json state currentTime now m s)"
| "step json state (OnError now) s =
     addLog now ''Link Terminal.'' Error None (s\<lparr>status := Idle, isActive := False\<rparr>)"
| "step json state (OnClose now) s =
     addLog now ''Session Closed.'' Info None (s\<lparr>status := Idle, isActive := False\<rparr>)"
| "step json state (SourceEnded source) s = onEnded source s"
| "step json state (ToastTimeout toastId) s = toastTimeout toastId s"
| "step json state StopSession s = s\<lparr>isActive := False, status := Idle\<rparr>"
| "step json state ShellRendered s = shellRendered s"

fun run :: "(ProductivityState \<Rightarrow> string) \<Rightarrow> ProductivityState \<Rightarrow> event list \<Rightarrow> session \<Rightarrow> session" where
  "run json state [] s = s"
| "run json state (e # es) s = run json state es (step json state e s)"

text \<open>The overlay as it is mounted, over an application state.\<close>

definition initial :: "ProductivityState \<Rightarrow> session" where
  "initial app =
     \<lparr>isActive = False, status = Idle, userSpeech = [], aiSpeech = [], actionLogs = [],
      history = [], toast = None, nextStartTime = 0, sources = [], started = [],
      appState = app, updatePending = False, renderError = None, pendingSends = [], sent = [],
      idSupply = 0\<rparr>"

section \<open>Notions used to state the properties\<close>

subsection \<open>The tool dispatcher\<close>

text \<open>The names that \<open>toolDeclarations\<close> declares.\<close>

definition toolNames :: "string list" where
  "toolNames = [''getWorkspaceData'', ''setTheme'', ''setLanguage'', ''addTodo'', ''addNote'',
     ''addEvent'', ''deleteItem'', ''markTodoComplete'']"

text \<open>
  A title contains the query as a case-insensitive substring: the lower-cased query is
  a contiguous part of the lower-cased title. An item without a title matches nothing.
\<close>

definition hasTitleMatching :: "string \<Rightarrow> jsstring \<Rightarrow> bool" where
  "hasTitleMatching query itemTitle =
     (case itemTitle of
        None \<Rightarrow> False
      | Some t \<Rightarrow> sublist (toLowerCase query) (toLowerCase t))"

text \<open>The titles of the items that a \<open>deleteItem\<close> request of a given type is about.\<close>

definition titlesOfType :: "jsstring \<Rightarrow> ProductivityState \<Rightarrow> jsstring list" where
  "titlesOfType type app =
     (if type = Some ''todo'' then map todo_title (todos app)
      else if type = Some ''note'' then map note_title (notes app)
      else if type = Some ''event'' then map event_title (events app)
      else [])"

text \<open>Every item has a title, as \<open>types.ts\<close> declares.\<close>

definition titlesDefined :: "ProductivityState \<Rightarrow> bool" where
  "titlesDefined app =
     (list_all (\<lambda>t. todo_title t \<noteq> None) (todos app) \<and>
      list_all (\<lambda>n. note_title n \<noteq> None) (notes app) \<and>
      list_all (\<lambda>e. event_title e \<noteq> None) (events app))"

text \<open>
  What the specification asks of \<open>deleteItem\<close> and of \<open>markTodoComplete\<close>: the items
  of the type whose title matches are removed, respectively the tasks whose title
  matches are marked complete, and nothing else changes.
\<close>

definition removeMatching :: "string \<Rightarrow> jsstring \<Rightarrow> ProductivityState \<Rightarrow> ProductivityState" where
  "removeMatching q type app =
     (if type = Some ''todo''
      then app\<lparr>todos := filter (\<lambda>t. \<not> hasTitleMatching q (todo_title t)) (todos app)\<rparr>
      else if type = Some ''note''
      then app\<lparr>notes := filter (\<lambda>n. \<not> hasTitleMatching q (note_title n)) (notes app)\<rparr>
      else if type = Some ''event''
      then app\<lparr>events := filter (\<lambda>e. \<not> hasTitleMatching q (event_title e)) (events app)\<rparr>
      else app)"

definition completeMatching :: "string \<Rightarrow> ProductivityState \<Rightarrow> ProductivityState" where
  "completeMatching q app =
     app\<lparr>todos := map (\<lambda>t. if hasTitleMatching q (todo_title t)
                              then t\<lparr>completed := True\<rparr> else t) (todos app)\<rparr>"

text \<open>
  A handler has left the session alone: the application state with its pending update
  and exception, the log, the toast and the identifiers apart.
\<close>

definition sameSession :: "session \<Rightarrow> session \<Rightarrow> bool" where
  "sameSession s s' \<longleftrightarrow>
     nextStartTime s' = nextStartTime s \<and> started s' = started s \<and> sources s' = sources s \<and>
     userSpeech s' = userSpeech s \<and> aiSpeech s' = aiSpeech s \<and> history s' = history s \<and>
     pendingSends s' = pendingSends s \<and> sent s' = sent s \<and> status s' = status s \<and>
     isActive s' = isActive s"

text \<open>
  The results of a batch of tool calls, each computed in the session that the calls
  before it have left, and the response that carries a result.
\<close>

fun toolResults :: "(ProductivityState \<Rightarrow> string) \<Rightarrow> ProductivityState \<Rightarrow> nat \<Rightarrow> FunctionCall list \<Rightarrow> session \<Rightarrow> string list" where
  "toolResults json state now [] s = []"
| "toolResults json state now (fc # fcs) s =
     fst (handleToolCall json state now fc s)
       # toolResults json state now fcs (toolCallStep json state now fc s)"

definition responseTo :: "FunctionCall \<Rightarrow> string \<Rightarrow> FunctionResponse" where
  "responseTo fc result =
     \<lparr>response_id = fc_id fc, response_name = fc_name fc, response_result = result\<rparr>"

subsection \<open>The playback schedule\<close>

fun interrupts :: "event \<Rightarrow> bool" where
  "interrupts (OnMessage currentTime now m) = interrupted m"
| "interrupts _ = False"

text \<open>The buffer that a message adds to the schedule, when its audio data decode.\<close>

definition chunkOf :: "LiveServerMessage \<Rightarrow> AudioBuffer option" where
  "chunkOf m =
     (case audioData m of
        None \<Rightarrow> None
      | Some base64 \<Rightarrow>
          if base64 = [] then None
          else (case decodeChunk base64 of Inl e \<Rightarrow> None | Inr buffer \<Rightarrow> Some buffer))"

text \<open>The decoding of the message's audio data throws.\<close>

definition audioFails :: "LiveServerMessage \<Rightarrow> bool" where
  "audioFails m =
     (case audioData m of
        None \<Rightarrow> False
      | Some base64 \<Rightarrow> base64 \<noteq> [] \<and> isl (decodeChunk base64))"

text \<open>
  The session as the tool-call loop of a message finds it: the transcripts appended,
  the turn flushed and the buffer scheduled, when the message's audio data decode.
\<close>

definition atToolCalls :: "rat \<Rightarrow> nat \<Rightarrow> LiveServerMessage \<Rightarrow> session \<Rightarrow> session" where
  "atToolCalls currentTime now m s =
     (let s1 = appendTranscriptions m s;
          s2 = (if turnComplete m then turnCompleteFlush now s1 else s1)
      in case chunkOf m of
           None \<Rightarrow> s2
         | Some buffer \<Rightarrow> startSource buffer (beginAudio currentTime s2))"

text \<open>
  A schedule (start time and duration of each buffer, in the order of scheduling) is
  chained when no buffer starts before the one before it has started, nor before it
  has ended.
\<close>

definition chained :: "(rat \<times> rat) list \<Rightarrow> bool" where
  "chained L \<longleftrightarrow>
     (\<forall>i. Suc i < length L \<longrightarrow>
        fst (L ! i) \<le> fst (L ! Suc i) \<and> fst (L ! i) + snd (L ! i) \<le> fst (L ! Suc i))"

definition scheduleInv :: "session \<Rightarrow> bool" where
  "scheduleInv s \<longleftrightarrow>
     chained (started s) \<and>
     (\<forall>p \<in> set (started s). 0 \<le> snd p \<and> fst p + snd p \<le> nextStartTime s)"

subsection \<open>Transcripts and the bounded buffers\<close>

fun completesTurn :: "event \<Rightarrow> bool" where
  "completesTurn (OnMessage currentTime now m) = turnComplete m"
| "completesTurn _ = False"

text \<open>The transcription deltas that a message, and a sequence of events, carry.\<close>

definition inputDelta :: "LiveServerMessage \<Rightarrow> string" where
  "inputDelta m = (case inputTranscription m of None \<Rightarrow> [] | Some t \<Rightarrow> str t)"

definition outputDelta :: "LiveServerMessage \<Rightarrow> string" where
  "outputDelta m = (case outputTranscription m of None \<Rightarrow> [] | Some t \<Rightarrow> str t)"

fun inputDeltas :: "event list \<Rightarrow> string" where
  "inputDeltas [] = []"
| "inputDeltas (OnMessage currentTime now m # es) = inputDelta m @ inputDeltas es"
| "inputDeltas (e # es) = inputDeltas es"

fun outputDeltas :: "event list \<Rightarrow> string" where
  "outputDeltas [] = []"
| "outputDeltas (OnMessage currentTime now m # es) = outputDelta m @ outputDeltas es"
| "outputDeltas (e # es) = outputDeltas es"

text \<open>A sequence of calls of \<open>addLog\<close> and \<open>addToHistory\<close>.\<close>

datatype bufferOp = AppendLog nat string logType jsstring | CommitTurn nat string string

fun applyOp :: "bufferOp \<Rightarrow> session \<Rightarrow> session" where
  "applyOp (AppendLog now message type tool) s = addLog now message type tool s"
| "applyOp (CommitTurn now u a) s = addToHistory now u a s"

fun applyOps :: "bufferOp list \<Rightarrow> session \<Rightarrow> session" where
  "applyOps [] s = s"
| "applyOps (op # ops) s = applyOps ops (applyOp op s)"

text \<open>
  The messages logged and the turns committed by a sequence, oldest first; a turn whose
  two texts are blank is not committed.
\<close>

fun loggedMessages :: "bufferOp list \<Rightarrow> string list" where
  "loggedMessages [] = []"
| "loggedMessages (AppendLog now message type tool # ops) = message # loggedMessages ops"
| "loggedMessages (CommitTurn now u a # ops) = loggedMessages ops"

fun committedTurns :: "bufferOp list \<Rightarrow> (string \<times> string) list" where
  "committedTurns [] = []"
| "committedTurns (AppendLog now message type tool # ops) = committedTurns ops"
| "committedTurns (CommitTurn now u a # ops) =
     (if trim u = [] \<and> trim a = [] then committedTurns ops else (u, a) # committedTurns ops)"

definition turnTexts :: "ConversationTurn \<Rightarrow> string \<times> string" where
  "turnTexts turn = (user turn, ai turn)"

definition boundedBuffers :: "session \<Rightarrow> bool" where
  "boundedBuffers s \<longleftrightarrow> length (actionLogs s) \<le> 15 \<and> length (history s) \<le> 5"

subsection \<open>Base64\<close>

text \<open>The six-bit groups of a binary string, before they are written as characters.\<close>

fun b64core :: "string \<Rightarrow> nat list" where
  "b64core [] = []"
| "b64core [a] = [of_char a div 4, (of_char a mod 4) * 16]"
| "b64core [a, b] =
     [of_char a div 4, (of_char a mod 4) * 16 + of_char b div 16, (of_char b mod 16) * 4]"
| "b64core (a # b # c # rest) =
     [of_char a div 4, (of_char a mod 4) * 16 + of_char b div 16,
      (of_char b mod 16) * 4 + of_char c div 64, of_char c mod 64] @ b64core rest"

subsection \<open>Sample inputs\<close>

definition noArgs :: toolArgs where
  "noArgs = \<lparr>arg_theme = None, arg_language = None, arg_title = None, arg_dueDate = None,
     arg_priority = None, arg_content = None, arg_date = None, arg_startTime = None,
     arg_location = None, arg_description = None, arg_type = None\<rparr>"

definition toolRequest :: "string \<Rightarrow> toolArgs \<Rightarrow> FunctionCall" where
  "toolRequest name args = \<lparr>fc_id = Some name, fc_name = name, fc_args = args\<rparr>"

definition emptyWorkspace :: ProductivityState where
  "emptyWorkspace =
     \<lparr>todos = [], notes = [], events = [], language = Some ''en'', theme = Some ''light''\<rparr>"

definition sampleTodo :: "ident \<Rightarrow> string \<Rightarrow> Todo" where
  "sampleTodo i t = \<lparr>todo_id = i, todo_title = Some t, completed = False, dueDate = None,
     priority = None, createdAt = 0\<rparr>"

definition sampleWorkspace :: ProductivityState where
  "sampleWorkspace =
     emptyWorkspace\<lparr>todos := [sampleTodo 1 ''Buy Milk'', sampleTodo 2 ''Call mom'',
                               sampleTodo 3 ''MILK run'']\<rparr>"

text \<open>A stand-in for \<open>JSON.stringify\<close> where its output does not matter.\<close>

definition noSnapshot :: "ProductivityState \<Rightarrow> string" where
  "noSnapshot app = ''{}''"

definition emptyMessage :: LiveServerMessage where
  "emptyMessage = \<lparr>inputTranscription = None, outputTranscription = None, turnComplete = False,
     audioData = None, toolCall = None, interrupted = False\<rparr>"

text \<open>Six zero bytes: three frames of silence, a 8000th of a second at 24 kHz.\<close>

definition chunkMessage :: LiveServerMessage where
  "chunkMessage = emptyMessage\<lparr>audioData := Some ''AAAAAAAA''\<rparr>"

definition interruptMessage :: LiveServerMessage where
  "interruptMessage = emptyMessage\<lparr>interrupted := True\<rparr>"

definition sampleEvents :: "event list" where
  "sampleEvents = [OnMessage 0 0 chunkMessage, SourceEnded 0, OnMessage (1/2) 7 chunkMessage,
     OnMessage (1/2) 9 chunkMessage]"

definition batchMessage :: LiveServerMessage where
  "batchMessage = emptyMessage\<lparr>toolCall :=
     Some [toolRequest ''addTodo'' (noArgs\<lparr>arg_title := Some ''a''\<rparr>),
           toolRequest ''addTodo'' (noArgs\<lparr>arg_title := Some ''b''\<rparr>)]\<rparr>"

definition milkBatchMessage :: LiveServerMessage where
  "milkBatchMessage = emptyMessage\<lparr>toolCall :=
     Some [toolRequest ''addTodo'' (noArgs\<lparr>arg_title := Some ''milk''\<rparr>),
           toolRequest ''markTodoComplete'' (noArgs\<lparr>arg_title := Some ''milk''\<rparr>)]\<rparr>"

definition brokenAudioMessage :: LiveServerMessage where
  "brokenAudioMessage = batchMessage\<lparr>audioData := Some ''AAAA''\<rparr>"

definition deleteUntitled :: FunctionCall where
  "deleteUntitled = toolRequest ''deleteItem'' (noArgs\<lparr>arg_type := Some ''todo''\<rparr>)"

definition spaceMessage :: LiveServerMessage where
  "spaceMessage = emptyMessage\<lparr>inputTranscription := Some (Some '' '')\<rparr>"

definition completeMessage :: LiveServerMessage where
  "completeMessage = emptyMessage\<lparr>turnComplete := True, outputTranscription := Some (Some ''.'')\<rparr>"

definition speechEvents :: "event list" where
  "speechEvents =
     [OnMessage 0 0 (emptyMessage\<lparr>inputTranscription := Some (Some ''Buy ''),
                                   outputTranscription := Some (Some ''Sure'')\<rparr>),
      OnMessage 0 1 (emptyMessage\<lparr>inputTranscription := Some (Some ''milk'')\<rparr>)]"

definition callMomWorkspace :: ProductivityState where
  "callMomWorkspace = emptyWorkspace\<lparr>todos := [sampleTodo 2 ''Call mom'']\<rparr>"

definition deleteMilk :: FunctionCall where
  "deleteMilk = toolRequest ''deleteItem'' (noArgs\<lparr>arg_type := Some ''todo'', arg_title := Some ''milk''\<rparr>)"

definition completeMilk :: FunctionCall where
  "completeMilk = toolRequest ''markTodoComplete'' (noArgs\<lparr>arg_title := Some ''milk''\<rparr>)"

definition sampleFrame :: "rat list" where
  "sampleFrame = [0, 1/2, -1/2, 1, -1, 3/65536, -3/65536]"

definition burstOps :: "bufferOp list" where
  "burstOps = map (\<lambda>n. AppendLog n ''Agent: Executing addTodo'' Tool (Some ''addTodo'')) [0..<20]
     @ map (\<lambda>n. CommitTurn n ''again'' ''ok'') [0..<7]"

section \<open>What the handlers leave unchanged\<close>

lemma addLog_keeps:
  "appState (addLog now msg ty tn s) = appState s"
  "nextStartTime (addLog now msg ty tn s) = nextStartTime s"
  "started (addLog now msg ty tn s) = started s"
  "sources (addLog now msg ty tn s) = sources s"
  "userSpeech (addLog now msg ty tn s) = userSpeech s"
  "aiSpeech (addLog now msg ty tn s) = aiSpeech s"
  "history (addLog now msg ty tn s) = history s"
  "pendingSends (addLog now msg ty tn s) = pendingSends s"
  "sent (addLog now msg ty tn s) = sent s"
  "status (addLog now msg ty tn s) = status s"
  "isActive (addLog now msg ty tn s) = isActive s"
  by (simp_all add: addLog_def generateSafeId_def Let_def)

lemma addLog_actionLogs:
  "actionLogs (addLog now msg ty tn s) =
     take 15 (\<lparr>log_id = idSupply s, log_message = msg, log_type = ty, toolName = tn,
               log_timestamp = now\<rparr> # actionLogs s)"
  by (simp add: addLog_def generateSafeId_def Let_def)

lemma addLog_toast:
  "toast (addLog now msg ty tn s) =
     (if ty = Success \<or> ty = Error
      then Some \<lparr>toast_id = Suc (idSupply s), toast_message = msg, toast_type = ty\<rparr>
      else toast s)"
  by (simp add: addLog_def generateSafeId_def Let_def)

lemma addToHistory_keeps:
  "appState (addToHistory now u a s) = appState s"
  "nextStartTime (addToHistory now u a s) = nextStartTime s"
  "started (addToHistory now u a s) = started s"
  "sources (addToHistory now u a s) = sources s"
  "userSpeech (addToHistory now u a s) = userSpeech s"
  "aiSpeech (addToHistory now u a s) = aiSpeech s"
  "actionLogs (addToHistory now u a s) = actionLogs s"
  "pendingSends (addToHistory now u a s) = pendingSends s"
  "sent (addToHistory now u a s) = sent s"
  "toast (addToHistory now u a s) = toast s"
  by (simp_all add: addToHistory_def generateSafeId_def Let_def)

lemma addToHistory_history:
  "history (addToHistory now u a s) =
     (if trim u = [] \<and> trim a = [] then history s
      else take 5 (\<lparr>turn_id = idSupply s, user = u, ai = a, turn_timestamp = now\<rparr> # history s))"
  by (simp add: addToHistory_def generateSafeId_def Let_def)

lemma toolBody_unknown:
  assumes "name \<notin> set toolNames"
  shows "toolBody json state now name args s = Inr (''OK'', s)"
  using assms unfolding toolBody_def toolNames_def by simp

section \<open>Matching titles\<close>

lemma includesStr_sublist: "includesStr s q = sublist q s"
  by (induction s) (auto simp: sublist_Cons_right)

lemma titleIncludes_Some:
  "titleIncludes (Some t) (Some q) = Inr (hasTitleMatching q (Some t))"
  by (simp add: titleIncludes_def toLowerCaseOf_def hasTitleMatching_def includesStr_sublist)

lemma filterNot_defined:
  assumes "\<forall>x \<in> set xs. f x \<noteq> None"
  shows "filterNot (\<lambda>x. titleIncludes (f x) (Some q)) xs
           = Inr (filter (\<lambda>x. \<not> hasTitleMatching q (f x)) xs)"
  using assms
proof (induction xs)
  case Nil
  show ?case by simp
next
  case (Cons x xs)
  then obtain t where t: "f x = Some t" by auto
  from Cons have "filterNot (\<lambda>x. titleIncludes (f x) (Some q)) xs
           = Inr (filter (\<lambda>x. \<not> hasTitleMatching q (f x)) xs)" by simp
  then show ?case by (simp add: t titleIncludes_Some)
qed

lemma mapFound_defined:
  assumes "\<forall>x \<in> set xs. f x \<noteq> None"
  shows "mapFound (\<lambda>x. titleIncludes (f x) (Some q)) g xs
           = (Inr (map (\<lambda>x. if hasTitleMatching q (f x) then g x else x) xs),
              \<exists>x \<in> set xs. hasTitleMatching q (f x))"
  using assms
proof (induction xs)
  case Nil
  show ?case by simp
next
  case (Cons x xs)
  then obtain t where t: "f x = Some t" by auto
  from Cons have "mapFound (\<lambda>x. titleIncludes (f x) (Some q)) g xs
           = (Inr (map (\<lambda>x. if hasTitleMatching q (f x) then g x else x) xs),
              \<exists>x \<in> set xs. hasTitleMatching q (f x))" by simp
  then show ?case by (auto simp add: t titleIncludes_Some)
qed

lemma filter_shorter_iff:
  "length (filter (\<lambda>x. \<not> P x) xs) < length xs \<longleftrightarrow> (\<exists>x \<in> set xs. P x)"
proof
  assume "length (filter (\<lambda>x. \<not> P x) xs) < length xs"
  then have "filter (\<lambda>x. \<not> P x) xs \<noteq> xs" by auto
  then show "\<exists>x \<in> set xs. P x" by (auto simp: filter_id_conv)
next
  assume "\<exists>x \<in> set xs. P x"
  then show "length (filter (\<lambda>x. \<not> P x) xs) < length xs"
    by (auto intro: length_filter_less)
qed

lemma filter_none_matching:
  "\<forall>x \<in> set xs. \<not> P x \<Longrightarrow> filter (\<lambda>x. \<not> P x) xs = xs"
  by (simp add: filter_id_conv)

lemma map_none_matching:
  "\<forall>x \<in> set xs. \<not> P x \<Longrightarrow> map (\<lambda>x. if P x then g x else x) xs = xs"
  by (induction xs) auto

lemma deleteItemUpdater_defined:
  assumes "\<forall>t \<in> set (titlesOfType type app). t \<noteq> None"
  shows "deleteItemUpdater type (Some q) app =
           (Inr (removeMatching q type app),
            \<exists>t \<in> set (titlesOfType type app). hasTitleMatching q t)"
  using assms
  by (simp add: deleteItemUpdater_def titlesOfType_def removeMatching_def filterNot_defined filter_shorter_iff)

lemma markTodoCompleteUpdater_defined:
  assumes "\<forall>t \<in> set (todos app). todo_title t \<noteq> None"
  shows "markTodoCompleteUpdater (Some q) app =
           (Inr (completeMatching q app), \<exists>t \<in> set (todos app). hasTitleMatching q (todo_title t))"
  using assms
  by (simp add: markTodoCompleteUpdater_def completeMatching_def mapFound_defined)

lemma titlesDefined_type:
  "titlesDefined app \<Longrightarrow> \<forall>t \<in> set (titlesOfType type app). t \<noteq> None"
  by (auto simp: titlesDefined_def titlesOfType_def list_all_iff)

lemma handle_deleteItem_state:
  assumes "fc_name fc = ''deleteItem''" "arg_title (fc_args fc) = Some q"
    "\<forall>t \<in> set (titlesOfType (arg_type (fc_args fc)) (appState s)). t \<noteq> None"
  shows "appState (snd (handleToolCall json state now fc s))
           = removeMatching q (arg_type (fc_args fc)) (appState s)"
  using assms
  by (simp add: handleToolCall_def toolBody_def Let_def deleteItemUpdater_defined addLog_keeps
        updateState_def)

lemma handle_markTodoComplete_state:
  assumes "fc_name fc = ''markTodoComplete''" "arg_title (fc_args fc) = Some q"
    "\<forall>t \<in> set (todos (appState s)). todo_title t \<noteq> None"
  shows "appState (snd (handleToolCall json state now fc s)) = completeMatching q (appState s)"
  using assms
  by (simp add: handleToolCall_def toolBody_def Let_def markTodoCompleteUpdater_defined addLog_keeps
        updateState_def)

lemma handle_deleteItem_not_found:
  assumes "fc_name fc = ''deleteItem''" "arg_title (fc_args fc) = Some q"
    "\<forall>t \<in> set (titlesOfType (arg_type (fc_args fc)) (appState s)). t \<noteq> None \<and> \<not> hasTitleMatching q t"
  shows \<open>fst (handleToolCall json state now fc s) = ''Error: Item "'' @ q @ ''" not found.''\<close>
    and "appState (snd (handleToolCall json state now fc s)) = appState s"
proof -
  have d: "\<forall>t \<in> set (titlesOfType (arg_type (fc_args fc)) (appState s)). t \<noteq> None"
    and n: "\<not> (\<exists>t \<in> set (titlesOfType (arg_type (fc_args fc)) (appState s)). hasTitleMatching q t)"
    using assms(3) by auto
  have same: "removeMatching q (arg_type (fc_args fc)) (appState s) = appState s"
    using n by (auto simp: removeMatching_def titlesOfType_def filter_id_conv)
  show \<open>fst (handleToolCall json state now fc s) = ''Error: Item "'' @ q @ ''" not found.''\<close>
    using assms(1,2) n
    by (simp add: handleToolCall_def toolBody_def Let_def addLog_keeps
          deleteItemUpdater_defined[OF d] updateState_def)
  show "appState (snd (handleToolCall json state now fc s)) = appState s"
    using handle_deleteItem_state[OF assms(1,2) d, of json state now] same by simp
qed

lemma handle_markTodoComplete_not_found:
  assumes "fc_name fc = ''markTodoComplete''" "arg_title (fc_args fc) = Some q"
    "\<forall>t \<in> set (todos (appState s)). todo_title t \<noteq> None \<and> \<not> hasTitleMatching q (todo_title t)"
  shows \<open>fst (handleToolCall json state now fc s) = ''Error: Task "'' @ q @ ''" not found.''\<close>
    and "appState (snd (handleToolCall json state now fc s)) = appState s"
proof -
  have d: "\<forall>t \<in> set (todos (appState s)). todo_title t \<noteq> None"
    and n: "\<not> (\<exists>t \<in> set (todos (appState s)). hasTitleMatching q (todo_title t))"
    using assms(3) by auto
  have "map (\<lambda>t. if hasTitleMatching q (todo_title t) then t\<lparr>completed := True\<rparr> else t)
          (todos (appState s)) = todos (appState s)"
    using n by (intro map_none_matching) auto
  then have same: "completeMatching q (appState s) = appState s"
    by (simp add: completeMatching_def)
  show \<open>fst (handleToolCall json state now fc s) = ''Error: Task "'' @ q @ ''" not found.''\<close>
    using assms(1,2) n
    by (simp add: handleToolCall_def toolBody_def Let_def addLog_keeps
          markTodoCompleteUpdater_defined[OF d] updateState_def)
  show "appState (snd (handleToolCall json state now fc s)) = appState s"
    using handle_markTodoComplete_state[OF assms(1,2) d, of json state now] same by simp
qed

section \<open>The dispatcher only touches the application state and the log\<close>

lemma sameSession_refl: "sameSession s s"
  by (simp add: sameSession_def)

lemma sameSession_trans: "sameSession s s1 \<Longrightarrow> sameSession s1 s2 \<Longrightarrow> sameSession s s2"
  by (simp add: sameSession_def)

lemma sameSession_addLog: "sameSession s (addLog now msg ty tn s)"
  by (simp add: sameSession_def addLog_keeps)

lemma sameSession_appState: "sameSession s (s\<lparr>appState := app\<rparr>)"
  by (simp add: sameSession_def)

lemma sameSession_updateState: "sameSession s (updateState f s)"
  by (simp add: sameSession_def updateState_def split: sum.splits)

lemma sameSession_generateSafeId: "sameSession s (snd (generateSafeId s))"
  by (simp add: sameSession_def generateSafeId_def)

lemma sameSession_after_addLog: "sameSession s s1 \<Longrightarrow> sameSession s (addLog now msg ty tn s1)"
  by (simp add: sameSession_def addLog_keeps)

lemma sameSession_after_updateState: "sameSession s s1 \<Longrightarrow> sameSession s (updateState f s1)"
  by (simp add: sameSession_def updateState_def split: sum.splits)

lemma toolBody_sameSession:
  assumes "toolBody json state now name args s = Inr (r, s')"
  shows "sameSession s s'"
  using assms unfolding toolBody_def Let_def
  by (auto split: if_splits sum.splits prod.splits
           intro!: sameSession_after_addLog sameSession_after_updateState
           simp: sameSession_refl sameSession_appState sameSession_generateSafeId generateSafeId_def
                 sameSession_def[of _ "_\<lparr>idSupply := _\<rparr>"])

lemma handleToolCall_sameSession:
  "sameSession s (snd (handleToolCall json state now fc s))"
proof -
  let ?s1 = "addLog now (''Agent: Executing '' @ fc_name fc) Tool (Some (fc_name fc)) s"
  have a: "sameSession s ?s1" by (rule sameSession_addLog)
  show ?thesis
  proof (cases "toolBody json state now (fc_name fc) (fc_args fc) ?s1")
    case (Inl e)
    then show ?thesis
      by (simp add: handleToolCall_def Let_def sameSession_def addLog_keeps)
  next
    case (Inr p)
    obtain r s' where p: "p = (r, s')" by (cases p)
    from Inr p have "sameSession ?s1 s'" by (auto dest: toolBody_sameSession)
    with a have "sameSession s s'" by (rule sameSession_trans)
    with Inr p show ?thesis by (simp add: handleToolCall_def Let_def)
  qed
qed

section \<open>The playback schedule\<close>

lemma chained_snoc:
  assumes "chained L" and "\<forall>p \<in> set L. 0 \<le> snd p \<and> fst p + snd p \<le> fst x"
  shows "chained (L @ [x])"
  unfolding chained_def
proof (intro allI impI)
  fix i assume i: "Suc i < length (L @ [x])"
  show "fst ((L @ [x]) ! i) \<le> fst ((L @ [x]) ! Suc i) \<and>
        fst ((L @ [x]) ! i) + snd ((L @ [x]) ! i) \<le> fst ((L @ [x]) ! Suc i)"
  proof (cases "Suc i < length L")
    case True
    with assms(1) show ?thesis by (simp add: chained_def nth_append)
  next
    case False
    with i have eq: "Suc i = length L" by simp
    then have "L ! i \<in> set L" by simp
    with assms(2) have "0 \<le> snd (L ! i)" "fst (L ! i) + snd (L ! i) \<le> fst x" by auto
    with eq show ?thesis by (simp add: nth_append)
  qed
qed

lemma duration_nonneg: "0 \<le> duration buffer"
  by (simp add: duration_def)

lemma toolCallStep_keeps:
  "nextStartTime (toolCallStep json state now fc s) = nextStartTime s"
  "started (toolCallStep json state now fc s) = started s"
  "sources (toolCallStep json state now fc s) = sources s"
  "userSpeech (toolCallStep json state now fc s) = userSpeech s"
  "aiSpeech (toolCallStep json state now fc s) = aiSpeech s"
  "history (toolCallStep json state now fc s) = history s"
  "sent (toolCallStep json state now fc s) = sent s"
  using handleToolCall_sameSession [of s json state now fc]
  by (simp_all add: toolCallStep_def sameSession_def case_prod_beta)

lemma toolCallLoop_keeps:
  "nextStartTime (toolCallLoop json state now fcs s) = nextStartTime s"
  "started (toolCallLoop json state now fcs s) = started s"
  "sources (toolCallLoop json state now fcs s) = sources s"
  "userSpeech (toolCallLoop json state now fcs s) = userSpeech s"
  "aiSpeech (toolCallLoop json state now fcs s) = aiSpeech s"
  "history (toolCallLoop json state now fcs s) = history s"
  "sent (toolCallLoop json state now fcs s) = sent s"
  by (induction fcs arbitrary: s; simp add: toolCallStep_keeps)+

lemma afterAudio_keeps:
  "started (afterAudio json state now m s) = started s"
  "userSpeech (afterAudio json state now m s) = userSpeech s"
  "aiSpeech (afterAudio json state now m s) = aiSpeech s"
  "history (afterAudio json state now m s) = history s"
  "sent (afterAudio json state now m s) = sent s"
  by (simp_all add: afterAudio_def onInterrupted_def toolCallLoop_keeps Let_def split: option.splits)

lemma afterAudio_nextStartTime:
  "nextStartTime (afterAudio json state now m s) = (if interrupted m then 0 else nextStartTime s)"
  by (simp add: afterAudio_def onInterrupted_def toolCallLoop_keeps Let_def split: option.splits)

lemma flush_keeps:
  "nextStartTime (turnCompleteFlush now s) = nextStartTime s"
  "started (turnCompleteFlush now s) = started s"
  "sources (turnCompleteFlush now s) = sources s"
  by (simp_all add: turnCompleteFlush_def addToHistory_keeps)

lemma transcriptions_keep:
  "nextStartTime (appendTranscriptions m s) = nextStartTime s"
  "started (appendTranscriptions m s) = started s"
  "sources (appendTranscriptions m s) = sources s"
  "history (appendTranscriptions m s) = history s"
  by (simp_all add: appendTranscriptions_def Let_def split: option.splits)

lemma onmessage_started:
  "started (onmessage json state t now m s) =
     (case chunkOf m of
        None \<Rightarrow> started s
      | Some buffer \<Rightarrow> started s @ [(max (nextStartTime s) t, duration buffer)])"
  by (simp add: onmessage_def chunkOf_def Let_def afterAudio_keeps beginAudio_def startSource_def
        flush_keeps transcriptions_keep split: option.splits sum.splits)

lemma onmessage_nextStartTime:
  "nextStartTime (onmessage json state t now m s) =
     (case audioData m of
        None \<Rightarrow> if interrupted m then 0 else nextStartTime s
      | Some base64 \<Rightarrow>
          if base64 = [] then (if interrupted m then 0 else nextStartTime s)
          else (case decodeChunk base64 of
                  Inl e \<Rightarrow> max (nextStartTime s) t
                | Inr buffer \<Rightarrow>
                    if interrupted m then 0 else max (nextStartTime s) t + duration buffer))"
  by (simp add: onmessage_def Let_def afterAudio_nextStartTime beginAudio_def startSource_def
        flush_keeps transcriptions_keep split: option.splits sum.splits)

lemma step_nextStartTime_mono:
  assumes "\<not> interrupts e"
  shows "nextStartTime s \<le> nextStartTime (step json state e s)"
proof (cases e)
  case (OnMessage t now m)
  with assms have "\<not> interrupted m" by simp
  then have "nextStartTime s \<le> nextStartTime (onmessage json state t now m s)"
    using duration_nonneg
    by (auto simp add: onmessage_nextStartTime max_def split: option.splits sum.splits
             intro: add_increasing2)
  with OnMessage show ?thesis by (simp add: runPendingSends_def)
qed (simp_all add: addLog_keeps onEnded_def toastTimeout_def shellRendered_def Let_def split: option.splits)

lemma step_scheduleInv:
  assumes "\<not> interrupts e" and "scheduleInv s"
  shows "scheduleInv (step json state e s)"
proof (cases e)
  case (OnMessage t now m)
  with assms have ni: "\<not> interrupted m" by simp
  have mono: "nextStartTime s \<le> nextStartTime (onmessage json state t now m s)"
    using step_nextStartTime_mono[OF assms(1), of s json state] OnMessage
    by (simp add: runPendingSends_def)
  have "scheduleInv (onmessage json state t now m s)"
  proof (cases "chunkOf m")
    case None
    then have "started (onmessage json state t now m s) = started s"
      by (simp add: onmessage_started)
    with assms(2) mono show ?thesis by (fastforce simp: scheduleInv_def)
  next
    case (Some buffer)
    then have st: "started (onmessage json state t now m s)
                 = started s @ [(max (nextStartTime s) t, duration buffer)]"
      by (simp add: onmessage_started)
    from Some ni have nx: "nextStartTime (onmessage json state t now m s)
                 = max (nextStartTime s) t + duration buffer"
      by (auto simp add: onmessage_nextStartTime chunkOf_def split: option.splits sum.splits if_splits)
    have old: "\<forall>p \<in> set (started s). 0 \<le> snd p \<and> fst p + snd p \<le> max (nextStartTime s) t"
      using assms(2) by (fastforce simp: scheduleInv_def)
    have "chained (started s @ [(max (nextStartTime s) t, duration buffer)])"
      using assms(2) old by (intro chained_snoc) (auto simp: scheduleInv_def)
    moreover have "\<forall>p \<in> set (started s). fst p + snd p \<le> max (nextStartTime s) t + duration buffer"
      using old duration_nonneg[of buffer] by (fastforce intro: add_increasing2)
    ultimately show ?thesis
      using old duration_nonneg[of buffer] by (auto simp: scheduleInv_def st nx)
  qed
  with OnMessage show ?thesis by (simp add: runPendingSends_def scheduleInv_def)
qed (use assms in \<open>simp_all add: scheduleInv_def addLog_keeps onEnded_def toastTimeout_def shellRendered_def Let_def split: option.splits\<close>)

lemma run_scheduleInv:
  assumes "\<forall>e \<in> set es. \<not> interrupts e" and "scheduleInv s"
  shows "scheduleInv (run json state es s)"
  using assms by (induction es arbitrary: s) (simp_all add: step_scheduleInv)

lemma run_nextStartTime_mono:
  assumes "\<forall>e \<in> set es. \<not> interrupts e"
  shows "nextStartTime s \<le> nextStartTime (run json state es s)"
  using assms
proof (induction es arbitrary: s)
  case Nil
  show ?case by simp
next
  case (Cons e es)
  have "nextStartTime s \<le> nextStartTime (step json state e s)"
    using Cons.prems by (simp add: step_nextStartTime_mono)
  also have "\<dots> \<le> nextStartTime (run json state es (step json state e s))"
    using Cons by simp
  finally show ?case by simp
qed

section \<open>Transcripts\<close>

lemma appendTranscriptions_speech:
  "userSpeech (appendTranscriptions m s) = userSpeech s @ inputDelta m"
  "aiSpeech (appendTranscriptions m s) = aiSpeech s @ outputDelta m"
  by (simp_all add: appendTranscriptions_def inputDelta_def outputDelta_def Let_def
        split: option.splits)

lemma onmessage_speech:
  "userSpeech (onmessage json state t now m s) =
     (if turnComplete m then [] else userSpeech s @ inputDelta m)"
  "aiSpeech (onmessage json state t now m s) =
     (if turnComplete m then [] else aiSpeech s @ outputDelta m)"
  by (simp_all add: onmessage_def Let_def afterAudio_keeps beginAudio_def startSource_def
        turnCompleteFlush_def appendTranscriptions_speech split: option.splits sum.splits)

lemma onmessage_history:
  "history (onmessage json state t now m s) =
     (if turnComplete m
      then history (addToHistory now (userSpeech s @ inputDelta m) (aiSpeech s @ outputDelta m)
                      (appendTranscriptions m s))
      else history s)"
  by (simp add: onmessage_def Let_def afterAudio_keeps beginAudio_def startSource_def
        turnCompleteFlush_def appendTranscriptions_speech transcriptions_keep
        split: option.splits sum.splits)

lemma step_speech_no_flush:
  assumes "\<not> completesTurn e"
  shows "userSpeech (step json state e s) = userSpeech s @ inputDeltas [e]"
    and "aiSpeech (step json state e s) = aiSpeech s @ outputDeltas [e]"
    and "history (step json state e s) = history s"
  using assms
  by (cases e; simp add: onmessage_speech onmessage_history runPendingSends_def addLog_keeps
        onEnded_def toastTimeout_def shellRendered_def Let_def split: option.splits)+

lemma inputDeltas_Cons: "inputDeltas (e # es) = inputDeltas [e] @ inputDeltas es"
  by (cases e) simp_all

lemma outputDeltas_Cons: "outputDeltas (e # es) = outputDeltas [e] @ outputDeltas es"
  by (cases e) simp_all

lemma run_speech_no_flush:
  assumes "\<forall>e \<in> set es. \<not> completesTurn e"
  shows "userSpeech (run json state es s) = userSpeech s @ inputDeltas es \<and>
         aiSpeech (run json state es s) = aiSpeech s @ outputDeltas es \<and>
         history (run json state es s) = history s"
  using assms
proof (induction es arbitrary: s)
  case Nil
  show ?case by simp
next
  case (Cons e es)
  then have e: "\<not> completesTurn e" and es: "\<forall>e \<in> set es. \<not> completesTurn e" by simp_all
  show ?case
    using Cons.IH[OF es, of "step json state e s"] step_speech_no_flush[OF e, of json state s]
    by (simp add: inputDeltas_Cons[of e es] outputDeltas_Cons[of e es])
qed

lemma run_append: "run json state (es @ fs) s = run json state fs (run json state es s)"
  by (induction es arbitrary: s) simp_all

lemma dropWhile_all: "(\<forall>x \<in> set (dropWhile P xs). P x) \<longleftrightarrow> (\<forall>x \<in> set xs. P x)"
proof
  assume a: "\<forall>x \<in> set (dropWhile P xs). P x"
  have "dropWhile P xs = []"
  proof (rule ccontr)
    assume ne: "dropWhile P xs \<noteq> []"
    then have "\<not> P (hd (dropWhile P xs))" by (rule hd_dropWhile)
    moreover from ne have "hd (dropWhile P xs) \<in> set (dropWhile P xs)" by simp
    ultimately show False using a by blast
  qed
  then show "\<forall>x \<in> set xs. P x" by (simp add: dropWhile_eq_Nil_conv)
next
  assume "\<forall>x \<in> set xs. P x"
  then show "\<forall>x \<in> set (dropWhile P xs). P x" by (auto dest: set_dropWhileD)
qed

lemma trim_empty_iff: "trim s = [] \<longleftrightarrow> (\<forall>c \<in> set s. isWhiteSpace c)"
  by (simp add: trim_def dropWhile_eq_Nil_conv dropWhile_all)

section \<open>The bounded buffers\<close>

lemma take_append_take: "take n (ys @ take n xs) = take n (ys @ xs)"
  by (simp add: min_def)

lemma applyOps_logs:
  assumes "length (actionLogs s) \<le> 15"
  shows "map log_message (actionLogs (applyOps ops s))
           = take 15 (rev (loggedMessages ops) @ map log_message (actionLogs s))"
  using assms
proof (induction ops arbitrary: s)
  case Nil
  then show ?case by simp
next
  case (Cons op ops)
  show ?case
  proof (cases op)
    case (AppendLog now message type tool)
    let ?s1 = "addLog now message type tool s"
    have len: "length (actionLogs ?s1) \<le> 15" by (simp add: addLog_actionLogs)
    have "map log_message (actionLogs ?s1) = take 15 (message # map log_message (actionLogs s))"
      by (simp add: addLog_actionLogs take_map)
    then have "map log_message (actionLogs (applyOps ops ?s1))
          = take 15 (rev (loggedMessages ops) @ take 15 (message # map log_message (actionLogs s)))"
      using Cons.IH[OF len] by simp
    then show ?thesis
      using AppendLog by (simp only: take_append_take applyOps.simps applyOp.simps
          loggedMessages.simps rev.simps append_assoc append_Cons append_Nil)
  next
    case (CommitTurn now u a)
    then show ?thesis
      using Cons.IH[of "addToHistory now u a s"] Cons.prems by (simp add: addToHistory_keeps)
  qed
qed

lemma applyOps_history:
  assumes "length (history s) \<le> 5"
  shows "map turnTexts (history (applyOps ops s))
           = take 5 (rev (committedTurns ops) @ map turnTexts (history s))"
  using assms
proof (induction ops arbitrary: s)
  case Nil
  then show ?case by simp
next
  case (Cons op ops)
  show ?case
  proof (cases op)
    case (AppendLog now message type tool)
    then show ?thesis
      using Cons.IH[of "addLog now message type tool s"] Cons.prems by (simp add: addLog_keeps)
  next
    case (CommitTurn now u a)
    let ?s1 = "addToHistory now u a s"
    show ?thesis
    proof (cases "trim u = [] \<and> trim a = []")
      case True
      then have "history ?s1 = history s" by (simp add: addToHistory_history)
      then show ?thesis
        using Cons.IH[of ?s1] Cons.prems CommitTurn True by simp
    next
      case False
      have len: "length (history ?s1) \<le> 5" using False by (auto simp add: addToHistory_history)
      have "map turnTexts (history ?s1) = take 5 ((u, a) # map turnTexts (history s))"
        using False by (auto simp add: addToHistory_history take_map turnTexts_def)
      then have "map turnTexts (history (applyOps ops ?s1))
          = take 5 (rev (committedTurns ops) @ take 5 ((u, a) # map turnTexts (history s)))"
        using Cons.IH[OF len] by simp
      then have "map turnTexts (history (applyOps ops ?s1))
          = take 5 (rev (committedTurns ops) @ ((u, a) # map turnTexts (history s)))"
        by (simp only: take_append_take)
      moreover have "rev (committedTurns (op # ops)) @ xs
                       = rev (committedTurns ops) @ ((u, a) # xs)" for xs
        using CommitTurn False by simp
      moreover have "applyOps (op # ops) s = applyOps ops ?s1"
        using CommitTurn by simp
      ultimately show ?thesis by (simp only:)
    qed
  qed
qed

lemma toolBody_logs:
  assumes "toolBody json state now name args s = Inr (r, s')" and "length (actionLogs s) \<le> 15"
  shows "length (actionLogs s') \<le> 15"
  using assms unfolding toolBody_def Let_def
  by (auto simp: addLog_actionLogs updateState_def generateSafeId_def
           split: if_splits sum.splits prod.splits)

lemma handleToolCall_logs: "length (actionLogs (snd (handleToolCall json state now fc s))) \<le> 15"
proof -
  let ?s1 = "addLog now (''Agent: Executing '' @ fc_name fc) Tool (Some (fc_name fc)) s"
  have a: "length (actionLogs ?s1) \<le> 15" by (simp add: addLog_actionLogs)
  show ?thesis
  proof (cases "toolBody json state now (fc_name fc) (fc_args fc) ?s1")
    case (Inl e)
    then show ?thesis by (simp add: handleToolCall_def Let_def addLog_actionLogs)
  next
    case (Inr p)
    obtain r s' where p: "p = (r, s')" by (cases p)
    from Inr p a have "length (actionLogs s') \<le> 15" by (auto dest: toolBody_logs)
    with Inr p show ?thesis by (simp add: handleToolCall_def Let_def)
  qed
qed

lemma toolCallLoop_logs:
  "length (actionLogs s) \<le> 15 \<Longrightarrow> length (actionLogs (toolCallLoop json state now fcs s)) \<le> 15"
proof (induction fcs arbitrary: s)
  case Nil
  then show ?case by simp
next
  case (Cons fc fcs)
  have "length (actionLogs (toolCallStep json state now fc s)) \<le> 15"
    using handleToolCall_logs[of json state now fc s] by (simp add: toolCallStep_def case_prod_beta)
  then show ?case using Cons.IH by simp
qed

lemma onmessage_bounded:
  assumes "boundedBuffers s"
  shows "boundedBuffers (onmessage json state t now m s)"
proof -
  have logs: "\<And>s. length (actionLogs s) \<le> 15 \<Longrightarrow> length (actionLogs (afterAudio json state now m s)) \<le> 15"
    by (simp add: afterAudio_def Let_def onInterrupted_def toolCallLoop_logs split: option.splits)
  have l0: "length (actionLogs (if turnComplete m then turnCompleteFlush now (appendTranscriptions m s)
               else appendTranscriptions m s)) \<le> 15"
    using assms
    by (simp add: boundedBuffers_def turnCompleteFlush_def addToHistory_keeps
          appendTranscriptions_def Let_def split: option.splits)
  have "length (actionLogs (onmessage json state t now m s)) \<le> 15"
    using l0 unfolding onmessage_def Let_def
    by (auto split: option.splits sum.splits intro!: logs simp: beginAudio_def startSource_def)
  moreover have "length (history (onmessage json state t now m s)) \<le> 5"
    using assms
    by (simp add: onmessage_history addToHistory_history transcriptions_keep boundedBuffers_def)
  ultimately show ?thesis by (simp add: boundedBuffers_def)
qed

lemma step_bounded:
  assumes "boundedBuffers s"
  shows "boundedBuffers (step json state e s)"
proof (cases e)
  case (OnMessage t now m)
  then show ?thesis
    using onmessage_bounded[OF assms, of json state t now m]
    by (simp add: boundedBuffers_def runPendingSends_def)
qed (use assms in \<open>simp_all add: boundedBuffers_def addLog_keeps addLog_actionLogs onEnded_def
       toastTimeout_def shellRendered_def Let_def split: option.splits\<close>)

lemma run_bounded:
  "boundedBuffers s \<Longrightarrow> boundedBuffers (run json state es s)"
  by (induction es arbitrary: s) (simp_all add: step_bounded)

section \<open>Responses to tool calls\<close>

lemma toolCallStep_pendingSends:
  "pendingSends (toolCallStep json state now fc s) =
     pendingSends s @ [responseTo fc (fst (handleToolCall json state now fc s))]"
  using handleToolCall_sameSession [of s json state now fc]
  by (simp add: toolCallStep_def sameSession_def case_prod_beta responseTo_def)

lemma toolCallLoop_pendingSends:
  "pendingSends (toolCallLoop json state now fcs s) =
     pendingSends s @ map2 responseTo fcs (toolResults json state now fcs s)"
  by (induction fcs arbitrary: s) (simp_all add: toolCallStep_pendingSends)

lemma length_toolResults: "length (toolResults json state now fcs s) = length fcs"
  by (induction fcs arbitrary: s) simp_all

lemma onmessage_at_toolCalls:
  assumes "\<not> audioFails m"
  shows "onmessage json state t now m s = afterAudio json state now m (atToolCalls t now m s)"
  using assms
  by (auto simp add: onmessage_def atToolCalls_def audioFails_def chunkOf_def Let_def
        split: option.splits sum.splits)

lemma onmessage_audioFails:
  assumes "audioFails m"
  shows "pendingSends (onmessage json state t now m s) = pendingSends s"
    and "sent (onmessage json state t now m s) = sent s"
    and "appState (onmessage json state t now m s) = appState s"
    and "actionLogs (onmessage json state t now m s) = actionLogs s"
  using assms
  by (auto simp add: onmessage_def audioFails_def beginAudio_def turnCompleteFlush_def
        addToHistory_keeps appendTranscriptions_def Let_def split: option.splits sum.splits)

lemma afterAudio_toolCalls:
  assumes "toolCall m = Some fcs"
  shows "pendingSends (afterAudio json state now m s) = pendingSends (toolCallLoop json state now fcs s)"
    and "appState (afterAudio json state now m s) = appState (toolCallLoop json state now fcs s)"
  using assms by (simp_all add: afterAudio_def onInterrupted_def Let_def)

section \<open>Samples as 16-bit integers\<close>

lemma truncToInt_bounds:
  assumes "-1 \<le> x" "x \<le> 1"
  shows "-32768 \<le> truncToInt (x * 32768)" and "truncToInt (x * 32768) \<le> 32768"
proof -
  have lo: "-32768 \<le> x * 32768" and hi: "x * 32768 \<le> 32768" using assms by simp_all
  show "-32768 \<le> truncToInt (x * 32768)"
    using lo by (auto simp: truncToInt_def le_floor_iff le_ceiling_iff)
  show "truncToInt (x * 32768) \<le> 32768"
    using hi by (auto simp: truncToInt_def floor_le_iff ceiling_le_iff)
qed

lemma truncToInt_top:
  assumes "x \<le> 1"
  shows "truncToInt (x * 32768) = 32768 \<longleftrightarrow> x = 1"
proof
  assume t: "truncToInt (x * 32768) = 32768"
  have "0 \<le> x * 32768"
  proof (rule ccontr)
    assume "\<not> 0 \<le> x * 32768"
    then have "truncToInt (x * 32768) \<le> 0" by (simp add: truncToInt_def ceiling_le_iff)
    with t show False by simp
  qed
  with t have "\<lfloor>x * 32768\<rfloor> = 32768" by (simp add: truncToInt_def)
  then have "32768 \<le> x * 32768" by (simp add: floor_eq_iff)
  with assms show "x = 1" by simp
next
  assume "x = 1"
  then show "truncToInt (x * 32768) = 32768" by (simp add: truncToInt_def)
qed

lemma sint_toInt16_in_range:
  assumes "- 32768 \<le> truncToInt y" "truncToInt y < 32768"
  shows "sint (toInt16 y) = truncToInt y"
  unfolding toInt16_def using assms
  by (simp add: sint_sbintrunc' signed_take_bit_int_eq_self)

lemma sint_toInt16_top:
  assumes "truncToInt y = 32768"
  shows "sint (toInt16 y) = - 32768"
  unfolding toInt16_def using assms by simp

lemma sint_toInt16_mod: "sint (toInt16 y) mod 65536 = truncToInt y mod 65536"
proof -
  have "take_bit 16 (sint (word_of_int (truncToInt y) :: 16 word)) = take_bit 16 (truncToInt y)"
    by (simp add: sint_sbintrunc' take_bit_signed_take_bit)
  then show ?thesis by (simp add: toInt16_def take_bit_eq_mod)
qed

lemma sint_toInt16_sample:
  assumes "-1 \<le> x" "x \<le> 1"
  shows "sint (toInt16 (x * 32768)) = (if x = 1 then - 32768 else truncToInt (x * 32768))"
proof (cases "x = 1")
  case True
  then show ?thesis by (simp add: sint_toInt16_top truncToInt_def)
next
  case False
  with truncToInt_top[OF assms(2)] truncToInt_bounds[OF assms]
  have "- 32768 \<le> truncToInt (x * 32768)" "truncToInt (x * 32768) < 32768" by auto
  with False show ?thesis by (simp add: sint_toInt16_in_range)
qed

lemma length_int16Bytes: "length (int16Bytes ws) = 2 * length ws"
  by (induction ws) simp_all

lemma int16_of_bytes:
  "push_bit 8 (ucast (ucast (drop_bit 8 w) :: 8 word)) OR ucast (ucast w :: 8 word) = (w :: 16 word)"
  by (rule bit_word_eqI) (auto simp: bit_simps)

lemma bytesInt16_int16Bytes: "bytesInt16 (int16Bytes ws) = ws"
  by (induction ws) (simp_all add: int16_of_bytes)

section \<open>Base64 decoding undoes the encoding\<close>

lemma b64_table: "\<forall>n \<in> set [0..<64]. b64value (b64char n) = Some n \<and> b64char n \<noteq> CHR ''='' \<and> \<not> isAsciiWhitespace (b64char n)"
  by code_simp

lemma pack_div_mod:
  fixes p q k :: nat
  assumes "q < k"
  shows "(p * k + q) div k = p" and "(p * k + q) mod k = q"
  using assms by simp_all

lemma pack_less:
  fixes p q :: nat
  assumes "p < m" "q < k"
  shows "p * k + q < m * k"
proof -
  have "p * k + q < p * k + k" using assms(2) by simp
  also have "\<dots> = Suc p * k" by simp
  also have "\<dots> \<le> m * k" using assms(1) by (intro mult_le_mono1) simp
  finally show ?thesis .
qed

lemma sextet_bounds:
  fixes x y z :: nat
  assumes "x < 256" "y < 256" "z < 256"
  shows "x div 4 < 64" "(x mod 4) * 16 + y div 16 < 64" "(y mod 16) * 4 + z div 64 < 64"
    "z mod 64 < 64" "(x mod 4) * 16 < 64" "(y mod 16) * 4 < 64"
proof -
  have d: "x div 4 < 64" "y div 16 < 16" "z div 64 < 4"
    using assms by (simp_all add: less_mult_imp_div_less)
  show "x div 4 < 64" by fact
  show "(x mod 4) * 16 + y div 16 < 64"
    using pack_less[of "x mod 4" 4 "y div 16" 16] d by simp
  show "(y mod 16) * 4 + z div 64 < 64"
    using pack_less[of "y mod 16" 16 "z div 64" 4] d by simp
  show "z mod 64 < 64" by simp
  show "(x mod 4) * 16 < 64"
    using pack_less[of "x mod 4" 4 0 16] by simp
  show "(y mod 16) * 4 < 64"
    using pack_less[of "y mod 16" 16 0 4] by simp
qed

lemma sextet_inverse:
  fixes x y z :: nat
  assumes "x < 256" "y < 256" "z < 256"
  shows "x div 4 * 4 + ((x mod 4) * 16 + y div 16) div 16 = x"
    "(((x mod 4) * 16 + y div 16) mod 16) * 16 + ((y mod 16) * 4 + z div 64) div 4 = y"
    "(((y mod 16) * 4 + z div 64) mod 4) * 64 + z mod 64 = z"
    "x div 4 * 4 + ((x mod 4) * 16) div 16 = x"
    "(((x mod 4) * 16 + y div 16) mod 16) * 16 + ((y mod 16) * 4) div 4 = y"
proof -
  have d: "y div 16 < 16" "z div 64 < 4"
    using assms by (simp_all add: less_mult_imp_div_less)
  have a: "((x mod 4) * 16 + y div 16) div 16 = x mod 4"
    "((x mod 4) * 16 + y div 16) mod 16 = y div 16"
    using pack_div_mod[OF d(1), of "x mod 4"] by simp_all
  have b: "((y mod 16) * 4 + z div 64) div 4 = y mod 16"
    "((y mod 16) * 4 + z div 64) mod 4 = z div 64"
    using pack_div_mod[OF d(2), of "y mod 16"] by simp_all
  show "x div 4 * 4 + ((x mod 4) * 16 + y div 16) div 16 = x"
    unfolding a by simp
  show "(((x mod 4) * 16 + y div 16) mod 16) * 16 + ((y mod 16) * 4 + z div 64) div 4 = y"
    unfolding a b by simp
  show "(((y mod 16) * 4 + z div 64) mod 4) * 64 + z mod 64 = z"
    unfolding b by simp
  show "x div 4 * 4 + ((x mod 4) * 16) div 16 = x" by simp
  show "(((x mod 4) * 16 + y div 16) mod 16) * 16 + ((y mod 16) * 4) div 4 = y"
    unfolding a by simp
qed

lemma b64char_facts:
  assumes "n < 64"
  shows "b64value (b64char n) = Some n" "b64char n \<noteq> CHR ''=''" "\<not> isAsciiWhitespace (b64char n)"
  using b64_table assms by auto

lemma of_char_byte: "(of_char c :: nat) < 256"
  by simp

lemma b64core_in_range: "\<forall>n \<in> set (b64core s). n < 64"
proof (induction s rule: b64core.induct)
  case (2 a)
  show ?case using sextet_bounds[of "of_char a" "of_char a" "of_char a"] by simp
next
  case (3 a b)
  show ?case using sextet_bounds[of "of_char a" "of_char b" "of_char b"] by simp
next
  case (4 a b c rest)
  then show ?case using sextet_bounds[of "of_char a" "of_char b" "of_char c"] by simp
qed simp

lemma sextetsToBytes_b64core: "map char_of (sextetsToBytes (b64core s)) = s"
proof (induction s rule: b64core.induct)
  case (2 a)
  show ?case using sextet_inverse(4)[of "of_char a" "of_char a" "of_char a"] by simp
next
  case (3 a b)
  show ?case using sextet_inverse(4,5)[of "of_char a" "of_char b" "of_char b"] by simp
next
  case (4 a b c rest)
  then show ?case using sextet_inverse(1,2,3)[of "of_char a" "of_char b" "of_char c"] by simp
qed simp

lemma length_b64core: "length (b64core s) mod 4 \<noteq> 1"
proof (induction s rule: b64core.induct)
  case (4 a b c rest)
  have "length (b64core (a # b # c # rest)) = length (b64core rest) + 4"
    by simp
  then have "length (b64core (a # b # c # rest)) mod 4 = length (b64core rest) mod 4"
    by (simp only: mod_add_self2)
  with 4 show ?case by simp
qed simp_all

lemma length_btoa: "length (btoa s) mod 4 = 0"
proof (induction s rule: btoa.induct)
  case (4 a b c rest)
  have "length (btoa (a # b # c # rest)) = length (btoa rest) + 4"
    by (simp add: Let_def)
  then have "length (btoa (a # b # c # rest)) mod 4 = length (btoa rest) mod 4"
    by (simp only: mod_add_self2)
  with 4 show ?case by simp
qed (simp_all add: Let_def)

lemma b64char_sextets:
  "b64char (of_char a div 4) \<noteq> CHR ''=''"
  "b64char (of_char c mod 64) \<noteq> CHR ''=''"
  "b64char ((of_char a mod 4) * 16 + of_char b div 16) \<noteq> CHR ''=''"
  "b64char ((of_char b mod 16) * 4 + of_char c div 64) \<noteq> CHR ''=''"
  "b64char ((of_char a mod 4) * 16) \<noteq> CHR ''=''"
  "b64char ((of_char b mod 16) * 4) \<noteq> CHR ''=''"
  using sextet_bounds[of "of_char a" "of_char b" "of_char c"]
  by (simp_all add: b64char_facts(2))

lemma b64char_no_whitespace: "\<not> isAsciiWhitespace (b64char n)"
proof -
  have "n mod 64 < 64" by simp
  from b64char_facts(3)[OF this] show ?thesis by (simp add: b64char_def)
qed

lemma padding_no_whitespace: "\<not> isAsciiWhitespace (CHR ''='')"
  by (simp add: isAsciiWhitespace_def)

lemma btoa_no_whitespace: "filter (\<lambda>c. \<not> isAsciiWhitespace c) (btoa s) = btoa s"
proof (induction s rule: btoa.induct)
  case (4 a b c rest)
  then show ?case by (simp add: Let_def b64char_no_whitespace)
qed (simp_all add: Let_def b64char_no_whitespace padding_no_whitespace)

lemma stripPadding_prepend:
  assumes "length t mod 4 = 0" and "d \<noteq> CHR ''=''"
  shows "stripPadding ([a, b, c, d] @ t) = [a, b, c, d] @ stripPadding t"
proof (cases "t = []")
  case True
  with assms show ?thesis by (simp add: stripPadding_def)
next
  case False
  with assms(1) have len: "4 \<le> length t"
    by (auto simp: mod_eq_0_iff_dvd dest: dvd_imp_le)
  then have bl: "butlast t \<noteq> []"
    by (cases t rule: rev_cases) auto
  have m: "length ([a, b, c, d] @ t) mod 4 = 0"
    using assms(1) by simp
  have l1: "last ([a, b, c, d] @ t) = last t" using False by simp
  have b1: "butlast ([a, b, c, d] @ t) = [a, b, c, d] @ butlast t" using False by (simp add: butlast_append)
  have l2: "last ([a, b, c, d] @ butlast t) = last (butlast t)" using bl by simp
  have b2: "butlast ([a, b, c, d] @ butlast t) = [a, b, c, d] @ butlast (butlast t)"
    using bl by (simp add: butlast_append)
  show ?thesis
    unfolding stripPadding_def Let_def m l1 b1 l2 b2 using assms(1) False bl by simp
qed

lemma stripPadding_btoa: "stripPadding (btoa s) = map b64char (b64core s)"
proof (induction s rule: btoa.induct)
  case 1
  show ?case by (simp add: stripPadding_def)
next
  case (2 a)
  show ?case by (simp add: stripPadding_def Let_def b64char_sextets)
next
  case (3 a b)
  show ?case by (simp add: stripPadding_def Let_def b64char_sextets)
next
  case (4 a b c rest)
  have "btoa (a # b # c # rest) =
          [b64char (of_char a div 4), b64char ((of_char a mod 4) * 16 + of_char b div 16),
           b64char ((of_char b mod 16) * 4 + of_char c div 64), b64char (of_char c mod 64)]
          @ btoa rest"
    by (simp add: Let_def)
  then show ?case
    using stripPadding_prepend[OF length_btoa[of rest] b64char_sextets(2)[of c]] 4 by simp
qed

lemma atob_btoa: "atob (btoa s) = Inr s"
proof -
  have v: "map (\<lambda>c. the (b64value c)) (map b64char (b64core s)) = b64core s"
    using b64core_in_range[of s] by (induction "b64core s" arbitrary: s) (auto simp: b64char_facts(1) map_idI)
  have d: "filter (\<lambda>c. \<not> isAsciiWhitespace c) (btoa s) = btoa s"
    by (rule btoa_no_whitespace)
  have ok: "\<not> (\<exists>c \<in> set (map b64char (b64core s)). b64value c = None)"
    using b64core_in_range[of s] by (auto simp: b64char_facts(1))
  show ?thesis
    unfolding atob_def d stripPadding_btoa Let_def v
    using ok length_b64core[of s] by (simp add: sextetsToBytes_b64core)
qed

lemma byte_of_char: "of_nat (unat b mod 256) = (b :: byte)"
proof -
  have "unat b < 256" using unsigned_less[of b, where ?'a = nat] by simp
  then show ?thesis by simp
qed

lemma decode_encode: "decode (encode bytes) = Inr bytes"
proof -
  have "map (\<lambda>c. of_nat (of_char c)) (map (\<lambda>b. char_of (unat b)) bytes) = bytes"
    for bytes :: "byte list"
    by (induction bytes) (simp_all add: byte_of_char)
  then show ?thesis by (simp add: decode_def encode_def atob_btoa)
qed

section \<open>Evaluating the sample inputs\<close>

lemma atob_sample: "atob ''AAAAAAAA'' = Inr (map char_of [0, 0, 0, 0, 0, 0 :: nat])"
  by (simp add: atob_def stripPadding_def isAsciiWhitespace_def b64value_def b64chars_def)

lemma decodeChunk_sample:
  "decodeChunk ''AAAAAAAA'' = Inr \<lparr>channelData = [0, 0, 0], sampleRate = 24000\<rparr>"
  by (simp add: decodeChunk_def decode_def atob_sample decodeAudioData_def)

lemma chunkOf_sample:
  "chunkOf chunkMessage = Some \<lparr>channelData = [0, 0, 0], sampleRate = 24000\<rparr>"
  by (simp add: chunkOf_def chunkMessage_def emptyMessage_def decodeChunk_sample)

lemmas session_eval =
  initial_def emptyMessage_def chunkMessage_def interruptMessage_def onmessage_def
  appendTranscriptions_def turnCompleteFlush_def addToHistory_def afterAudio_def beginAudio_def
  startSource_def onInterrupted_def runPendingSends_def onEnded_def decodeChunk_sample
  duration_def generateSafeId_def Let_def

lemma run_sampleEvents:
  "started (run noSnapshot emptyWorkspace sampleEvents (initial emptyWorkspace))
     = [(0, 1/8000), (1/2, 1/8000), (4001/8000, 1/8000)]"
  by (simp add: sampleEvents_def session_eval)

lemmas tool_eval =
  handleToolCall_def toolBody_def toolCallStep_def addLog_def updateState_def noArgs_def
  toolRequest_def emptyWorkspace_def

lemma hasTitleMatching_samples:
  "hasTitleMatching ''milk'' (Some ''Buy Milk'')"
  "\<not> hasTitleMatching ''milk'' (Some ''Call mom'')"
  "hasTitleMatching ''milk'' (Some ''MILK run'')"
  by code_simp+

lemma atob_AAAA: "atob ''AAAA'' = Inr (map char_of [0, 0, 0 :: nat])"
  by (simp add: atob_def stripPadding_def isAsciiWhitespace_def b64value_def b64chars_def)

lemma audioFails_brokenAudioMessage: "audioFails brokenAudioMessage"
  by (simp add: audioFails_def brokenAudioMessage_def batchMessage_def emptyMessage_def
        decodeChunk_def decode_def atob_AAAA decodeAudioData_def)

text \<open>
  The dispatcher on a task that matches, with no update pending and with one; and on a
  request without title, whose updater throws.
\<close>

lemma completeMilk_at_once:
  "fst (handleToolCall noSnapshot emptyWorkspace 0 completeMilk (initial sampleWorkspace))
     = ''OK: Marked \"milk\" as done.''"
  by (simp add: completeMilk_def tool_eval updaterRunsAtOnce_def initial_def generateSafeId_def
        Let_def sampleWorkspace_def sampleTodo_def markTodoCompleteUpdater_defined
        hasTitleMatching_samples)

lemma completeMilk_deferred:
  "fst (handleToolCall noSnapshot emptyWorkspace 0 completeMilk
          ((initial sampleWorkspace)\<lparr>updatePending := True\<rparr>))
     = ''Error: Task \"milk\" not found.''"
  by (simp add: completeMilk_def tool_eval updaterRunsAtOnce_def initial_def generateSafeId_def
        Let_def)

lemma deleteUntitled_throws_at_render:
  "fst (handleToolCall noSnapshot emptyWorkspace 0 deleteUntitled (initial sampleWorkspace))
     = ''Error: Item \"undefined\" not found.'' \<and>
   appState (snd (handleToolCall noSnapshot emptyWorkspace 0 deleteUntitled (initial sampleWorkspace)))
     = sampleWorkspace \<and>
   renderError (snd (handleToolCall noSnapshot emptyWorkspace 0 deleteUntitled
     (initial sampleWorkspace)))
     = Some (TypeError ''Cannot read properties of undefined (reading 'toLowerCase')'') \<and>
   map log_type (actionLogs (snd (handleToolCall noSnapshot emptyWorkspace 0 deleteUntitled
     (initial sampleWorkspace)))) = [Tool]"
  by (simp add: deleteUntitled_def tool_eval updaterRunsAtOnce_def initial_def generateSafeId_def
        Let_def sampleWorkspace_def sampleTodo_def deleteItemUpdater_def titleIncludes_def
        toLowerCaseOf_def)

section \<open>The properties of the specification\<close>

text \<open>
  C1. Whatever the events of a session and the readings of the audio clock, as long as
  no interruption arrives, every buffer is scheduled to start no earlier than the start
  of the buffer before it, and no earlier than that start plus that buffer's duration.
  A message whose audio data decode schedules its buffer at the maximum of the cursor
  and of the clock, and leaves the cursor at that start plus the buffer's duration.
\<close>

theorem chunks_scheduled_back_to_back:
  assumes "\<forall>e \<in> set es. \<not> interrupts e" and "started s = []"
  shows "(\<forall>i. Suc i < length (started (run json state es s)) \<longrightarrow>
            fst (started (run json state es s) ! i) \<le> fst (started (run json state es s) ! Suc i) \<and>
            fst (started (run json state es s) ! i) + snd (started (run json state es s) ! i)
              \<le> fst (started (run json state es s) ! Suc i)) \<and>
         (\<forall>t now m buffer s'. chunkOf m = Some buffer \<longrightarrow>
            started (onmessage json state t now m s')
              = started s' @ [(max (nextStartTime s') t, duration buffer)] \<and>
            (\<not> interrupted m \<longrightarrow>
               nextStartTime (onmessage json state t now m s')
                 = max (nextStartTime s') t + duration buffer))"
proof -
  have "scheduleInv s" using assms(2) by (simp add: scheduleInv_def chained_def)
  then have "scheduleInv (run json state es s)" using assms(1) by (intro run_scheduleInv)
  then have a: "chained (started (run json state es s))" by (simp add: scheduleInv_def)
  have b: "started (onmessage json state t now m s')
              = started s' @ [(max (nextStartTime s') t, duration buffer)] \<and>
            (\<not> interrupted m \<longrightarrow>
               nextStartTime (onmessage json state t now m s')
                 = max (nextStartTime s') t + duration buffer)"
    if "chunkOf m = Some buffer" for t now m buffer s'
    using that
    by (auto simp add: onmessage_started onmessage_nextStartTime chunkOf_def
          split: option.splits sum.splits if_splits)
  from a b show ?thesis unfolding chained_def by blast
qed

theorem chunks_scheduled_back_to_back_witness:
  "list_all (\<lambda>e. \<not> interrupts e) sampleEvents \<and> started (initial emptyWorkspace) = [] \<and>
   started (run noSnapshot emptyWorkspace sampleEvents (initial emptyWorkspace))
     = [(0, 1/8000), (1/2, 1/8000), (4001/8000, 1/8000)] \<and>
   fst (started (run noSnapshot emptyWorkspace sampleEvents (initial emptyWorkspace)) ! 1)
     + snd (started (run noSnapshot emptyWorkspace sampleEvents (initial emptyWorkspace)) ! 1)
     \<le> fst (started (run noSnapshot emptyWorkspace sampleEvents (initial emptyWorkspace)) ! Suc 1) \<and>
   started (onmessage noSnapshot emptyWorkspace (1/2) 0 chunkMessage (initial emptyWorkspace))
     = [(1/2, 1/8000)]"
proof -
  have h1: "\<forall>e \<in> set sampleEvents. \<not> interrupts e"
    by (simp add: sampleEvents_def chunkMessage_def emptyMessage_def)
  have h2: "started (initial emptyWorkspace) = []" by (simp add: initial_def)
  note T = chunks_scheduled_back_to_back [OF h1 h2, of noSnapshot emptyWorkspace]
  have len: "Suc 1 < length (started (run noSnapshot emptyWorkspace sampleEvents (initial emptyWorkspace)))"
    by (simp add: run_sampleEvents)
  from T len have c1: "fst (started (run noSnapshot emptyWorkspace sampleEvents (initial emptyWorkspace)) ! 1)
     + snd (started (run noSnapshot emptyWorkspace sampleEvents (initial emptyWorkspace)) ! 1)
     \<le> fst (started (run noSnapshot emptyWorkspace sampleEvents (initial emptyWorkspace)) ! Suc 1)"
    by blast
  from T chunkOf_sample
  have "started (onmessage noSnapshot emptyWorkspace (1/2) 0 chunkMessage (initial emptyWorkspace))
     = started (initial emptyWorkspace) @ [(max (nextStartTime (initial emptyWorkspace)) (1/2),
          duration \<lparr>channelData = [0, 0, 0], sampleRate = 24000\<rparr>)]"
    by blast
  then have c2: "started (onmessage noSnapshot emptyWorkspace (1/2) 0 chunkMessage (initial emptyWorkspace))
     = [(1/2, 1/8000)]"
    by (simp add: initial_def duration_def)
  from h1 have "list_all (\<lambda>e. \<not> interrupts e) sampleEvents" by (simp add: list_all_iff)
  with h2 c1 c2 run_sampleEvents show ?thesis by (intro conjI)
qed

text \<open>
  C2. The claim fails as stated: the response to a request is handed to
  \<open>sessionPromise.then\<close>, so that it is sent only when the handler has finished,
  after the later requests of the batch have been dispatched.
\<close>

theorem response_before_next_call_counterexample:
  "sent (onmessage noSnapshot emptyWorkspace 0 0 batchMessage (initial emptyWorkspace)) = [] \<and>
   map todo_title (todos (appState
     (onmessage noSnapshot emptyWorkspace 0 0 batchMessage (initial emptyWorkspace))))
     = [Some ''b'', Some ''a''] \<and>
   map response_result (sent
     (step noSnapshot emptyWorkspace (OnMessage 0 0 batchMessage) (initial emptyWorkspace)))
     = [''OK: Added task \"a\".'', ''OK: Added task \"b\".'']"
  by (simp add: batchMessage_def session_eval tool_eval)

text \<open>
  C2, amended. In a message whose audio data, if any, decode, the requests of the batch
  are dispatched one after the other, in the order of the batch. The dispatch of a
  request registers exactly one response, which carries the request's identifier and
  name and the text that its dispatch has returned, and sends nothing, before the next
  request is dispatched. Nothing is sent while the handler of the message runs; when
  it has finished, the responses are sent in the order of the requests. When the
  decoding of the audio data throws, the handler ends before the loop: no request of
  the message is dispatched or answered. The sample batch adds a task and marks it
  complete: the second updater waits for the render, so that the second response is
  the text of a task not found although the task is marked.
\<close>

theorem toolCalls_answered_in_order:
  "(pendingSends (toolCallStep json state now fc s') =
      pendingSends s' @ [responseTo fc (fst (handleToolCall json state now fc s'))] \<and>
    sent (toolCallStep json state now fc s') = sent s') \<and>
   (length (toolResults json state now fcs s') = length fcs \<and>
    sent (toolCallLoop json state now fcs s') = sent s' \<and>
    pendingSends (toolCallLoop json state now fcs s') =
      pendingSends s' @ map2 responseTo fcs (toolResults json state now fcs s')) \<and>
   (\<not> audioFails m \<and> toolCall m = Some fcs \<longrightarrow>
      length (toolResults json state now fcs (atToolCalls t now m s)) = length fcs \<and>
      appState (onmessage json state t now m s) =
        appState (toolCallLoop json state now fcs (atToolCalls t now m s)) \<and>
      sent (onmessage json state t now m s) = sent s \<and>
      pendingSends (onmessage json state t now m s) =
        pendingSends s @ map2 responseTo fcs (toolResults json state now fcs (atToolCalls t now m s)) \<and>
      sent (step json state (OnMessage t now m) s) =
        sent s @ pendingSends s @
          map2 responseTo fcs (toolResults json state now fcs (atToolCalls t now m s)) \<and>
      pendingSends (step json state (OnMessage t now m) s) = []) \<and>
   (audioFails m \<longrightarrow>
      appState (onmessage json state t now m s) = appState s \<and>
      actionLogs (onmessage json state t now m s) = actionLogs s \<and>
      pendingSends (onmessage json state t now m s) = pendingSends s \<and>
      sent (step json state (OnMessage t now m) s) = sent s @ pendingSends s)"
proof -
  have one: "pendingSends (toolCallStep json state now fc s') =
      pendingSends s' @ [responseTo fc (fst (handleToolCall json state now fc s'))] \<and>
    sent (toolCallStep json state now fc s') = sent s'"
    by (simp add: toolCallStep_pendingSends toolCallStep_keeps)
  have all: "length (toolResults json state now fcs s') = length fcs \<and>
    sent (toolCallLoop json state now fcs s') = sent s' \<and>
    pendingSends (toolCallLoop json state now fcs s') =
      pendingSends s' @ map2 responseTo fcs (toolResults json state now fcs s')"
    by (simp add: length_toolResults toolCallLoop_keeps toolCallLoop_pendingSends)
  have p0: "pendingSends (atToolCalls t now m s) = pendingSends s"
    by (simp add: atToolCalls_def Let_def startSource_def beginAudio_def turnCompleteFlush_def
          addToHistory_keeps appendTranscriptions_def split: option.splits)
  have ok: "length (toolResults json state now fcs (atToolCalls t now m s)) = length fcs \<and>
      appState (onmessage json state t now m s) =
        appState (toolCallLoop json state now fcs (atToolCalls t now m s)) \<and>
      sent (onmessage json state t now m s) = sent s \<and>
      pendingSends (onmessage json state t now m s) =
        pendingSends s @ map2 responseTo fcs (toolResults json state now fcs (atToolCalls t now m s)) \<and>
      sent (step json state (OnMessage t now m) s) =
        sent s @ pendingSends s @
          map2 responseTo fcs (toolResults json state now fcs (atToolCalls t now m s)) \<and>
      pendingSends (step json state (OnMessage t now m) s) = []"
    if a: "\<not> audioFails m" and b: "toolCall m = Some fcs"
  proof -
    have s0: "sent (onmessage json state t now m s) = sent s"
      by (simp add: onmessage_def Let_def afterAudio_keeps beginAudio_def startSource_def
            turnCompleteFlush_def addToHistory_keeps appendTranscriptions_def
            split: option.splits sum.splits)
    have p: "pendingSends (onmessage json state t now m s) =
        pendingSends s @ map2 responseTo fcs (toolResults json state now fcs (atToolCalls t now m s))"
      unfolding onmessage_at_toolCalls[OF a] afterAudio_toolCalls(1)[OF b]
      by (simp add: toolCallLoop_pendingSends p0)
    have ap: "appState (onmessage json state t now m s) =
        appState (toolCallLoop json state now fcs (atToolCalls t now m s))"
      unfolding onmessage_at_toolCalls[OF a] by (rule afterAudio_toolCalls(2)[OF b])
    from s0 p ap show ?thesis
      by (simp add: length_toolResults runPendingSends_def)
  qed
  have bad: "appState (onmessage json state t now m s) = appState s \<and>
      actionLogs (onmessage json state t now m s) = actionLogs s \<and>
      pendingSends (onmessage json state t now m s) = pendingSends s \<and>
      sent (step json state (OnMessage t now m) s) = sent s @ pendingSends s"
    if "audioFails m"
    using onmessage_audioFails[OF that, of json state t now s]
    by (simp add: runPendingSends_def)
  from one all ok bad show ?thesis by blast
qed

theorem toolCalls_answered_in_order_witness:
  "\<not> audioFails milkBatchMessage \<and>
   toolCall milkBatchMessage =
     Some [toolRequest ''addTodo'' (noArgs\<lparr>arg_title := Some ''milk''\<rparr>),
           toolRequest ''markTodoComplete'' (noArgs\<lparr>arg_title := Some ''milk''\<rparr>)] \<and>
   sent (onmessage noSnapshot emptyWorkspace 0 0 milkBatchMessage (initial emptyWorkspace)) = [] \<and>
   sent (step noSnapshot emptyWorkspace (OnMessage 0 0 milkBatchMessage) (initial emptyWorkspace)) =
     [\<lparr>response_id = Some ''addTodo'', response_name = ''addTodo'',
       response_result = ''OK: Added task \"milk\".''\<rparr>,
      \<lparr>response_id = Some ''markTodoComplete'', response_name = ''markTodoComplete'',
       response_result = ''Error: Task \"milk\" not found.''\<rparr>] \<and>
   map completed (todos (appState
     (onmessage noSnapshot emptyWorkspace 0 0 milkBatchMessage (initial emptyWorkspace)))) = [True] \<and>
   audioFails brokenAudioMessage \<and>
   appState (onmessage noSnapshot emptyWorkspace 0 0 brokenAudioMessage (initial emptyWorkspace))
     = emptyWorkspace \<and>
   sent (step noSnapshot emptyWorkspace (OnMessage 0 0 brokenAudioMessage) (initial emptyWorkspace)) = []"
proof -
  let ?fcs = "[toolRequest ''addTodo'' (noArgs\<lparr>arg_title := Some ''milk''\<rparr>),
           toolRequest ''markTodoComplete'' (noArgs\<lparr>arg_title := Some ''milk''\<rparr>)]"
  let ?s0 = "initial emptyWorkspace"
  have a: "\<not> audioFails milkBatchMessage"
    by (simp add: audioFails_def milkBatchMessage_def emptyMessage_def)
  have b: "toolCall milkBatchMessage = Some ?fcs"
    by (simp add: milkBatchMessage_def emptyMessage_def)
  have at: "atToolCalls 0 0 milkBatchMessage ?s0 = ?s0"
    by (simp add: atToolCalls_def milkBatchMessage_def emptyMessage_def appendTranscriptions_def
          chunkOf_def)
  have r: "toolResults noSnapshot emptyWorkspace 0 ?fcs ?s0
             = [''OK: Added task \"milk\".'', ''Error: Task \"milk\" not found.'']"
    by (simp add: tool_eval updaterRunsAtOnce_def initial_def generateSafeId_def Let_def)
  have compl: "map completed (todos (appState (toolCallLoop noSnapshot emptyWorkspace 0 ?fcs ?s0)))
                = [True]"
    by (simp add: tool_eval updaterRunsAtOnce_def initial_def generateSafeId_def Let_def
          markTodoCompleteUpdater_def titleIncludes_def toLowerCaseOf_def includesStr_sublist)
  note T = toolCalls_answered_in_order [of noSnapshot emptyWorkspace 0 _ _ ?fcs milkBatchMessage 0 ?s0]
  from T a b have s1: "sent (onmessage noSnapshot emptyWorkspace 0 0 milkBatchMessage ?s0) = sent ?s0"
    by blast
  from T a b have s2: "sent (step noSnapshot emptyWorkspace (OnMessage 0 0 milkBatchMessage) ?s0) =
        sent ?s0 @ pendingSends ?s0 @
          map2 responseTo ?fcs (toolResults noSnapshot emptyWorkspace 0 ?fcs
            (atToolCalls 0 0 milkBatchMessage ?s0))"
    by blast
  from T a b have s3: "appState (onmessage noSnapshot emptyWorkspace 0 0 milkBatchMessage ?s0) =
        appState (toolCallLoop noSnapshot emptyWorkspace 0 ?fcs (atToolCalls 0 0 milkBatchMessage ?s0))"
    by blast
  have c1: "sent (onmessage noSnapshot emptyWorkspace 0 0 milkBatchMessage ?s0) = []"
    using s1 by (simp add: initial_def)
  have c2: "sent (step noSnapshot emptyWorkspace (OnMessage 0 0 milkBatchMessage) ?s0) =
     [\<lparr>response_id = Some ''addTodo'', response_name = ''addTodo'',
       response_result = ''OK: Added task \"milk\".''\<rparr>,
      \<lparr>response_id = Some ''markTodoComplete'', response_name = ''markTodoComplete'',
       response_result = ''Error: Task \"milk\" not found.''\<rparr>]"
    unfolding s2 at r by (simp add: initial_def responseTo_def toolRequest_def)
  have c3: "map completed (todos (appState
     (onmessage noSnapshot emptyWorkspace 0 0 milkBatchMessage ?s0))) = [True]"
    unfolding s3 at by (rule compl)
  note U = toolCalls_answered_in_order [of noSnapshot emptyWorkspace 0 _ _ _ brokenAudioMessage 0 ?s0]
  from U audioFails_brokenAudioMessage
  have "appState (onmessage noSnapshot emptyWorkspace 0 0 brokenAudioMessage ?s0) = appState ?s0"
    "sent (step noSnapshot emptyWorkspace (OnMessage 0 0 brokenAudioMessage) ?s0)
       = sent ?s0 @ pendingSends ?s0"
    by blast+
  then have c4: "appState (onmessage noSnapshot emptyWorkspace 0 0 brokenAudioMessage ?s0)
     = emptyWorkspace"
    and c5: "sent (step noSnapshot emptyWorkspace (OnMessage 0 0 brokenAudioMessage) ?s0) = []"
    by (simp_all add: initial_def)
  from a b c1 c2 c3 audioFails_brokenAudioMessage c4 c5 show ?thesis by (intro conjI)
qed

text \<open>
  C3. The claim fails as stated: an interruption puts the cursor back to zero.
\<close>

theorem cursor_reset_counterexample:
  "\<not> nextStartTime (run noSnapshot emptyWorkspace [OnMessage 0 0 chunkMessage] (initial emptyWorkspace))
     \<le> nextStartTime (run noSnapshot emptyWorkspace
           [OnMessage 0 0 chunkMessage, OnMessage 0 0 interruptMessage] (initial emptyWorkspace))"
  by (simp add: session_eval)

text \<open>
  C3, amended. Across every sequence of session events without an interruption signal,
  the cursor never moves backward; a message with an interruption signal, unless the
  decoding of its audio data fails, leaves the cursor at zero.
\<close>

theorem cursor_moves_back_only_on_interruption:
  assumes "\<forall>e \<in> set es. \<not> interrupts e"
  shows "nextStartTime s \<le> nextStartTime (run json state es s) \<and>
         (\<forall>t now m s'. interrupted m \<and> \<not> audioFails m \<longrightarrow>
            nextStartTime (step json state (OnMessage t now m) s') = 0)"
proof -
  have "nextStartTime (step json state (OnMessage t now m) s') = 0"
    if "interrupted m" "\<not> audioFails m" for t now m s'
    using that
    by (auto simp add: onmessage_nextStartTime runPendingSends_def audioFails_def
          split: option.splits sum.splits)
  with run_nextStartTime_mono[OF assms] show ?thesis by blast
qed

theorem cursor_moves_back_only_on_interruption_witness:
  "list_all (\<lambda>e. \<not> interrupts e) sampleEvents \<and>
   nextStartTime (initial emptyWorkspace)
     \<le> nextStartTime (run noSnapshot emptyWorkspace sampleEvents (initial emptyWorkspace)) \<and>
   interrupted interruptMessage \<and> \<not> audioFails interruptMessage \<and>
   nextStartTime (step noSnapshot emptyWorkspace (OnMessage 3 0 interruptMessage)
     (run noSnapshot emptyWorkspace sampleEvents (initial emptyWorkspace))) = 0"
proof -
  have h: "\<forall>e \<in> set sampleEvents. \<not> interrupts e"
    by (simp add: sampleEvents_def chunkMessage_def emptyMessage_def)
  have i: "interrupted interruptMessage \<and> \<not> audioFails interruptMessage"
    by (simp add: interruptMessage_def emptyMessage_def audioFails_def)
  have l: "list_all (\<lambda>e. \<not> interrupts e) sampleEvents"
    using h by (simp add: list_all_iff)
  from cursor_moves_back_only_on_interruption [OF h, of "initial emptyWorkspace" noSnapshot emptyWorkspace]
    l i show ?thesis by blast
qed

text \<open>
  C4. The claim fails as stated: \<open>addToHistory\<close> trims the two texts before it tests
  them, so that a transcript of white space alone is not committed.
\<close>

theorem blank_turn_counterexample:
  "userSpeech (run noSnapshot emptyWorkspace [OnMessage 0 0 spaceMessage] (initial emptyWorkspace))
     = '' '' \<and>
   history (run noSnapshot emptyWorkspace
     [OnMessage 0 0 spaceMessage, OnMessage 0 0 (emptyMessage\<lparr>turnComplete := True\<rparr>)]
     (initial emptyWorkspace)) = []"
  by (simp add: spaceMessage_def session_eval trim_def isWhiteSpace_def)

text \<open>
  C4, amended. After any events that complete no turn, starting with both accumulators
  empty, a message that completes the turn leaves both accumulators empty; it commits
  exactly one turn, whose two texts are the concatenations of the deltas received, the
  message's own included, provided one of the two contains a character that is not white
  space; otherwise it commits nothing.
\<close>

theorem turnComplete_commits_accumulated:
  assumes "\<forall>e \<in> set es. \<not> completesTurn e" and "turnComplete m"
    and "userSpeech s = []" and "aiSpeech s = []"
  shows "userSpeech (run json state (es @ [OnMessage t now m]) s) = [] \<and>
         aiSpeech (run json state (es @ [OnMessage t now m]) s) = [] \<and>
         (if (\<forall>c \<in> set (inputDeltas es @ inputDelta m). isWhiteSpace c) \<and>
             (\<forall>c \<in> set (outputDeltas es @ outputDelta m). isWhiteSpace c)
          then history (run json state (es @ [OnMessage t now m]) s) = history s
          else \<exists>i. history (run json state (es @ [OnMessage t now m]) s) =
                 take 5 (\<lparr>turn_id = i, user = inputDeltas es @ inputDelta m,
                          ai = outputDeltas es @ outputDelta m, turn_timestamp = now\<rparr>
                         # history s))"
proof -
  let ?s1 = "run json state es s"
  have acc: "userSpeech ?s1 = inputDeltas es" "aiSpeech ?s1 = outputDeltas es"
    "history ?s1 = history s"
    using run_speech_no_flush[OF assms(1), of json state s] assms(3,4) by simp_all
  have fin: "run json state (es @ [OnMessage t now m]) s
               = runPendingSends (onmessage json state t now m ?s1)"
    by (simp add: run_append)
  show ?thesis
    unfolding fin using assms(2) acc
    by (auto simp add: runPendingSends_def onmessage_speech onmessage_history
          addToHistory_history transcriptions_keep trim_empty_iff)
qed

theorem turnComplete_commits_accumulated_witness:
  "list_all (\<lambda>e. \<not> completesTurn e) speechEvents \<and> turnComplete completeMessage \<and>
   userSpeech (initial emptyWorkspace) = [] \<and> aiSpeech (initial emptyWorkspace) = [] \<and>
   userSpeech (run noSnapshot emptyWorkspace (speechEvents @ [OnMessage 0 2 completeMessage])
     (initial emptyWorkspace)) = [] \<and>
   map turnTexts (history (run noSnapshot emptyWorkspace
     (speechEvents @ [OnMessage 0 2 completeMessage]) (initial emptyWorkspace)))
     = [(''Buy milk'', ''Sure.'')]"
proof -
  have h1: "\<forall>e \<in> set speechEvents. \<not> completesTurn e"
    by (simp add: speechEvents_def emptyMessage_def)
  have h2: "turnComplete completeMessage" by (simp add: completeMessage_def)
  have h3: "userSpeech (initial emptyWorkspace) = []" "aiSpeech (initial emptyWorkspace) = []"
    by (simp_all add: initial_def)
  have d: "inputDeltas speechEvents @ inputDelta completeMessage = ''Buy milk''"
    "outputDeltas speechEvents @ outputDelta completeMessage = ''Sure.''"
    by (simp_all add: speechEvents_def completeMessage_def emptyMessage_def inputDelta_def
          outputDelta_def)
  have w: "\<not> (\<forall>c \<in> set ''Buy milk''. isWhiteSpace c)" by (simp add: isWhiteSpace_def)
  note T = turnComplete_commits_accumulated [OF h1 h2 h3, of noSnapshot emptyWorkspace 0 2]
  from T have u: "userSpeech (run noSnapshot emptyWorkspace
      (speechEvents @ [OnMessage 0 2 completeMessage]) (initial emptyWorkspace)) = []" by blast
  from T w have "\<exists>i. history (run noSnapshot emptyWorkspace
      (speechEvents @ [OnMessage 0 2 completeMessage]) (initial emptyWorkspace))
      = take 5 (\<lparr>turn_id = i, user = ''Buy milk'', ai = ''Sure.'', turn_timestamp = 2\<rparr>
                # history (initial emptyWorkspace))"
    unfolding d by presburger
  then have "map turnTexts (history (run noSnapshot emptyWorkspace
     (speechEvents @ [OnMessage 0 2 completeMessage]) (initial emptyWorkspace)))
     = [(''Buy milk'', ''Sure.'')]"
    by (auto simp add: initial_def turnTexts_def)
  moreover have "list_all (\<lambda>e. \<not> completesTurn e) speechEvents"
    using h1 by (simp add: list_all_iff)
  ultimately show ?thesis using h2 h3 u by (intro conjI)
qed

text \<open>
  C5. For a \<open>deleteItem\<close> call and for a \<open>markTodoComplete\<close> call with a query, on any
  application state whose items have titles: the application state afterwards is the
  state before without the items of the requested type whose title contains the query
  as a case-insensitive substring, respectively with the tasks whose title contains it
  marked complete; every other item and field is as before.
\<close>

theorem delete_and_complete_affect_exactly_the_matches:
  assumes "arg_title (fc_args fc) = Some q" and "titlesDefined (appState s)"
  shows "(fc_name fc = ''deleteItem'' \<longrightarrow>
            appState (snd (handleToolCall json state now fc s))
              = removeMatching q (arg_type (fc_args fc)) (appState s)) \<and>
         (fc_name fc = ''markTodoComplete'' \<longrightarrow>
            appState (snd (handleToolCall json state now fc s))
              = completeMatching q (appState s))"
proof -
  have t: "\<forall>t \<in> set (todos (appState s)). todo_title t \<noteq> None"
    using assms(2) by (simp add: titlesDefined_def list_all_iff)
  show ?thesis
    using handle_deleteItem_state[OF _ assms(1) titlesDefined_type[OF assms(2)], of json state now]
      handle_markTodoComplete_state[OF _ assms(1) t, of json state now]
    by blast
qed

theorem delete_and_complete_affect_exactly_the_matches_witness:
  "arg_title (fc_args deleteMilk) = Some ''milk'' \<and>
   arg_title (fc_args completeMilk) = Some ''milk'' \<and>
   titlesDefined (appState (initial sampleWorkspace)) \<and>
   fc_name deleteMilk = ''deleteItem'' \<and> fc_name completeMilk = ''markTodoComplete'' \<and>
   todos (appState (snd (handleToolCall noSnapshot emptyWorkspace 0 deleteMilk
     (initial sampleWorkspace)))) = [sampleTodo 2 ''Call mom''] \<and>
   map completed (todos (appState (snd (handleToolCall noSnapshot emptyWorkspace 0 completeMilk
     (initial sampleWorkspace))))) = [True, False, True]"
proof -
  have a: "arg_title (fc_args deleteMilk) = Some ''milk''"
    "arg_title (fc_args completeMilk) = Some ''milk''"
    by (simp_all add: deleteMilk_def completeMilk_def toolRequest_def noArgs_def)
  have b: "titlesDefined (appState (initial sampleWorkspace))"
    by (simp add: titlesDefined_def initial_def sampleWorkspace_def emptyWorkspace_def sampleTodo_def)
  have n: "fc_name deleteMilk = ''deleteItem''" "fc_name completeMilk = ''markTodoComplete''"
    "arg_type (fc_args deleteMilk) = Some ''todo''"
    by (simp_all add: deleteMilk_def completeMilk_def toolRequest_def noArgs_def)
  from delete_and_complete_affect_exactly_the_matches [OF a(1) b, of noSnapshot emptyWorkspace 0] n
  have "appState (snd (handleToolCall noSnapshot emptyWorkspace 0 deleteMilk (initial sampleWorkspace)))
          = removeMatching ''milk'' (Some ''todo'') (appState (initial sampleWorkspace))"
    by simp
  then have d: "todos (appState (snd (handleToolCall noSnapshot emptyWorkspace 0 deleteMilk
     (initial sampleWorkspace)))) = [sampleTodo 2 ''Call mom'']"
    by (simp add: removeMatching_def initial_def sampleWorkspace_def emptyWorkspace_def
          sampleTodo_def hasTitleMatching_samples)
  from delete_and_complete_affect_exactly_the_matches [OF a(2) b, of noSnapshot emptyWorkspace 0] n
  have "appState (snd (handleToolCall noSnapshot emptyWorkspace 0 completeMilk (initial sampleWorkspace)))
          = completeMatching ''milk'' (appState (initial sampleWorkspace))"
    by simp
  then have c: "map completed (todos (appState (snd (handleToolCall noSnapshot emptyWorkspace 0
     completeMilk (initial sampleWorkspace))))) = [True, False, True]"
    by (simp add: completeMatching_def initial_def sampleWorkspace_def emptyWorkspace_def
          sampleTodo_def hasTitleMatching_samples)
  from a b n d c show ?thesis by blast
qed

text \<open>
  C6. When no item of the requested type has a title that contains the query as a
  case-insensitive substring, \<open>deleteItem\<close> returns \<open>Error: Item "query" not found.\<close>
  and \<open>markTodoComplete\<close> returns \<open>Error: Task "query" not found.\<close>, and the
  application state is as it was.
\<close>

theorem no_match_is_an_error:
  assumes "arg_title (fc_args fc) = Some q"
  shows \<open>(fc_name fc = ''deleteItem'' \<and>
           (\<forall>t \<in> set (titlesOfType (arg_type (fc_args fc)) (appState s)).
               t \<noteq> None \<and> \<not> hasTitleMatching q t) \<longrightarrow>
            fst (handleToolCall json state now fc s) = ''Error: Item "'' @ q @ ''" not found.'' \<and>
            appState (snd (handleToolCall json state now fc s)) = appState s) \<and>
         (fc_name fc = ''markTodoComplete'' \<and>
           (\<forall>t \<in> set (todos (appState s)).
               todo_title t \<noteq> None \<and> \<not> hasTitleMatching q (todo_title t)) \<longrightarrow>
            fst (handleToolCall json state now fc s) = ''Error: Task "'' @ q @ ''" not found.'' \<and>
            appState (snd (handleToolCall json state now fc s)) = appState s)\<close>
  using handle_deleteItem_not_found[OF _ assms, of s json state now]
    handle_markTodoComplete_not_found[OF _ assms, of s json state now]
  by blast

theorem no_match_is_an_error_witness:
  \<open>arg_title (fc_args deleteMilk) = Some ''milk'' \<and> fc_name deleteMilk = ''deleteItem'' \<and>
   list_all (\<lambda>t. t \<noteq> None \<and> \<not> hasTitleMatching ''milk'' t)
     (titlesOfType (arg_type (fc_args deleteMilk)) (appState (initial callMomWorkspace))) \<and>
   fst (handleToolCall noSnapshot emptyWorkspace 0 deleteMilk (initial callMomWorkspace))
     = ''Error: Item "milk" not found.'' \<and>
   appState (snd (handleToolCall noSnapshot emptyWorkspace 0 deleteMilk (initial callMomWorkspace)))
     = callMomWorkspace \<and>
   arg_title (fc_args completeMilk) = Some ''milk'' \<and> fc_name completeMilk = ''markTodoComplete'' \<and>
   list_all (\<lambda>t. todo_title t \<noteq> None \<and> \<not> hasTitleMatching ''milk'' (todo_title t))
     (todos (appState (initial callMomWorkspace))) \<and>
   fst (handleToolCall noSnapshot emptyWorkspace 0 completeMilk (initial callMomWorkspace))
     = ''Error: Task "milk" not found.''\<close>
proof -
  have a: "arg_title (fc_args deleteMilk) = Some ''milk''"
    "arg_title (fc_args completeMilk) = Some ''milk''"
    by (simp_all add: deleteMilk_def completeMilk_def toolRequest_def noArgs_def)
  have n: "fc_name deleteMilk = ''deleteItem''" "fc_name completeMilk = ''markTodoComplete''"
    by (simp_all add: deleteMilk_def completeMilk_def toolRequest_def noArgs_def)
  have h1: "\<forall>t \<in> set (titlesOfType (arg_type (fc_args deleteMilk)) (appState (initial callMomWorkspace))).
       t \<noteq> None \<and> \<not> hasTitleMatching ''milk'' t"
    by (simp add: titlesOfType_def deleteMilk_def toolRequest_def noArgs_def initial_def
          callMomWorkspace_def emptyWorkspace_def sampleTodo_def hasTitleMatching_samples)
  have h2: "\<forall>t \<in> set (todos (appState (initial callMomWorkspace))).
       todo_title t \<noteq> None \<and> \<not> hasTitleMatching ''milk'' (todo_title t)"
    by (simp add: initial_def callMomWorkspace_def emptyWorkspace_def sampleTodo_def
          hasTitleMatching_samples)
  have i: "appState (initial callMomWorkspace) = callMomWorkspace" by (simp add: initial_def)
  from no_match_is_an_error [OF a(1), of "initial callMomWorkspace" noSnapshot emptyWorkspace 0]
    n(1) h1 i
  have d: \<open>fst (handleToolCall noSnapshot emptyWorkspace 0 deleteMilk (initial callMomWorkspace))
     = ''Error: Item "milk" not found.'' \<and>
   appState (snd (handleToolCall noSnapshot emptyWorkspace 0 deleteMilk (initial callMomWorkspace)))
     = callMomWorkspace\<close>
    by simp
  from no_match_is_an_error [OF a(2), of "initial callMomWorkspace" noSnapshot emptyWorkspace 0]
    n(2) h2
  have c: \<open>fst (handleToolCall noSnapshot emptyWorkspace 0 completeMilk (initial callMomWorkspace))
     = ''Error: Task "milk" not found.''\<close>
    by simp
  have l1: "list_all (\<lambda>t. t \<noteq> None \<and> \<not> hasTitleMatching ''milk'' t)
     (titlesOfType (arg_type (fc_args deleteMilk)) (appState (initial callMomWorkspace)))"
    using h1 by (simp add: list_all_iff)
  have l2: "list_all (\<lambda>t. todo_title t \<noteq> None \<and> \<not> hasTitleMatching ''milk'' (todo_title t))
     (todos (appState (initial callMomWorkspace)))"
    using h2 by (simp add: list_all_iff)
  from a n l1 l2 d c show ?thesis by (intro conjI) simp_all
qed

text \<open>
  C7. After any sequence of calls of \<open>addLog\<close> and \<open>addToHistory\<close>, from the overlay
  as it is mounted, the action log holds at most 15 entries and the history at most 5:
  they are the 15 most recent messages logged and the 5 most recent turns committed,
  newest first. The bounds also hold after any sequence of session events.
\<close>

theorem buffers_bounded:
  "length (actionLogs (applyOps ops (initial app))) \<le> 15 \<and>
   length (history (applyOps ops (initial app))) \<le> 5 \<and>
   map log_message (actionLogs (applyOps ops (initial app))) = take 15 (rev (loggedMessages ops)) \<and>
   map turnTexts (history (applyOps ops (initial app))) = take 5 (rev (committedTurns ops)) \<and>
   length (actionLogs (run json state es (initial app))) \<le> 15 \<and>
   length (history (run json state es (initial app))) \<le> 5"
proof -
  have l: "map log_message (actionLogs (applyOps ops (initial app))) = take 15 (rev (loggedMessages ops))"
    using applyOps_logs[of "initial app" ops] by (simp add: initial_def)
  have h: "map turnTexts (history (applyOps ops (initial app))) = take 5 (rev (committedTurns ops))"
    using applyOps_history[of "initial app" ops] by (simp add: initial_def)
  have ll: "length (actionLogs (applyOps ops (initial app))) \<le> 15"
    using arg_cong[OF l, of length] by simp
  have lh: "length (history (applyOps ops (initial app))) \<le> 5"
    using arg_cong[OF h, of length] by simp
  have "boundedBuffers (run json state es (initial app))"
    by (rule run_bounded) (simp add: boundedBuffers_def initial_def)
  then show ?thesis using l h ll lh by (simp only: boundedBuffers_def simp_thms)
qed

theorem buffers_bounded_witness:
  "length (actionLogs (applyOps burstOps (initial emptyWorkspace))) = 15 \<and>
   length (history (applyOps burstOps (initial emptyWorkspace))) = 5 \<and>
   map log_timestamp (actionLogs (applyOps burstOps (initial emptyWorkspace)))
     = [19, 18, 17, 16, 15, 14, 13, 12, 11, 10, 9, 8, 7, 6, 5] \<and>
   map log_message (actionLogs (applyOps burstOps (initial emptyWorkspace)))
     = take 15 (rev (loggedMessages burstOps))"
proof -
  have e: "[0..<20] = [0,1,2,3,4,5,6,7,8,9,10,11,12,13,14,15,16,17,18,19::nat]"
    "[0..<7] = [0,1,2,3,4,5,6::nat]"
    by (simp_all add: upt_rec)
  have "map log_timestamp (actionLogs (applyOps burstOps (initial emptyWorkspace)))
     = [19, 18, 17, 16, 15, 14, 13, 12, 11, 10, 9, 8, 7, 6, 5]"
    "length (history (applyOps burstOps (initial emptyWorkspace))) = 5"
    by (simp_all add: burstOps_def e addLog_def addToHistory_def generateSafeId_def initial_def
          trim_def isWhiteSpace_def)
  moreover from arg_cong[OF calculation(1), of length]
  have "length (actionLogs (applyOps burstOps (initial emptyWorkspace))) = 15" by simp
  ultimately show ?thesis
    using buffers_bounded [of burstOps emptyWorkspace noSnapshot emptyWorkspace "[]"] by simp
qed

text \<open>
  C8. A \<open>setTheme\<close> call whose theme is \<open>light\<close> or \<open>dark\<close> sets the theme of the
  application state to it and returns a text that starts with \<open>OK:\<close>; with any other
  theme, or none, the application state is unchanged and the text returned is
  \<open>Error: Invalid theme specified.\<close>
\<close>

theorem setTheme_result:
  assumes "fc_name fc = ''setTheme''"
  shows "(if arg_theme (fc_args fc) = Some ''light'' \<or> arg_theme (fc_args fc) = Some ''dark''
          then appState (snd (handleToolCall json state now fc s))
                 = (appState s)\<lparr>theme := arg_theme (fc_args fc)\<rparr> \<and>
               prefix ''OK:'' (fst (handleToolCall json state now fc s))
          else appState (snd (handleToolCall json state now fc s)) = appState s \<and>
               fst (handleToolCall json state now fc s) = ''Error: Invalid theme specified.'')"
  using assms
  by (auto simp add: handleToolCall_def toolBody_def addLog_keeps updateState_def Let_def)

theorem setTheme_result_witness:
  "fc_name (toolRequest ''setTheme'' (noArgs\<lparr>arg_theme := Some ''purple''\<rparr>)) = ''setTheme'' \<and>
   fst (handleToolCall noSnapshot emptyWorkspace 0
       (toolRequest ''setTheme'' (noArgs\<lparr>arg_theme := Some ''purple''\<rparr>)) (initial emptyWorkspace))
     = ''Error: Invalid theme specified.'' \<and>
   appState (snd (handleToolCall noSnapshot emptyWorkspace 0
       (toolRequest ''setTheme'' (noArgs\<lparr>arg_theme := Some ''purple''\<rparr>)) (initial emptyWorkspace)))
     = emptyWorkspace \<and>
   theme (appState (snd (handleToolCall noSnapshot emptyWorkspace 0
       (toolRequest ''setTheme'' (noArgs\<lparr>arg_theme := Some ''dark''\<rparr>)) (initial emptyWorkspace))))
     = Some ''dark''"
proof -
  have n: "fc_name (toolRequest ''setTheme'' (noArgs\<lparr>arg_theme := t\<rparr>)) = ''setTheme''" for t
    by (simp add: toolRequest_def)
  from setTheme_result [OF n, of "Some ''purple''" noSnapshot emptyWorkspace 0 "initial emptyWorkspace"]
  have p: "fst (handleToolCall noSnapshot emptyWorkspace 0
       (toolRequest ''setTheme'' (noArgs\<lparr>arg_theme := Some ''purple''\<rparr>)) (initial emptyWorkspace))
     = ''Error: Invalid theme specified.'' \<and>
   appState (snd (handleToolCall noSnapshot emptyWorkspace 0
       (toolRequest ''setTheme'' (noArgs\<lparr>arg_theme := Some ''purple''\<rparr>)) (initial emptyWorkspace)))
     = emptyWorkspace"
    by (simp add: toolRequest_def noArgs_def initial_def)
  from setTheme_result [OF n, of "Some ''dark''" noSnapshot emptyWorkspace 0 "initial emptyWorkspace"]
  have "theme (appState (snd (handleToolCall noSnapshot emptyWorkspace 0
       (toolRequest ''setTheme'' (noArgs\<lparr>arg_theme := Some ''dark''\<rparr>)) (initial emptyWorkspace))))
     = Some ''dark''"
    by (simp add: toolRequest_def noArgs_def)
  with n p show ?thesis by blast
qed

text \<open>
  C9. A frame of samples between -1 and 1 becomes a blob tagged
  \<open>audio/pcm;rate=16000\<close> whose data are the Base64 text of two bytes per sample, low
  byte first: decoding the text gives these bytes back, and the bytes give back the
  16-bit values. The value of a sample \<open>x\<close> is \<open>x * 32768\<close> cut towards zero, reduced
  modulo \<open>2^16\<close> into the signed range; the reduction changes the value of the sample
  1 only, which becomes -32768.
\<close>

theorem onaudioprocess_pcm:
  assumes "\<forall>x \<in> set inputData. - 1 \<le> x \<and> x \<le> 1"
  shows "mimeType (onaudioprocess inputData) = ''audio/pcm;rate=16000'' \<and>
         blob_data (onaudioprocess inputData)
           = btoa (map (\<lambda>b. char_of (unat b))
               (int16Bytes (map (\<lambda>x. toInt16 (x * 32768)) inputData))) \<and>
         decode (blob_data (onaudioprocess inputData))
           = Inr (int16Bytes (map (\<lambda>x. toInt16 (x * 32768)) inputData)) \<and>
         length (int16Bytes (map (\<lambda>x. toInt16 (x * 32768)) inputData)) = 2 * length inputData \<and>
         bytesInt16 (int16Bytes (map (\<lambda>x. toInt16 (x * 32768)) inputData))
           = map (\<lambda>x. toInt16 (x * 32768)) inputData \<and>
         (\<forall>x \<in> set inputData.
            sint (toInt16 (x * 32768)) = (if x = 1 then - 32768 else truncToInt (x * 32768)) \<and>
            sint (toInt16 (x * 32768)) mod 65536 = truncToInt (x * 32768) mod 65536 \<and>
            - 32768 \<le> sint (toInt16 (x * 32768)) \<and> sint (toInt16 (x * 32768)) \<le> 32767)"
proof -
  let ?int16 = "map (\<lambda>x. toInt16 (x * 32768)) inputData"
  have m: "mimeType (onaudioprocess inputData) = ''audio/pcm;rate=16000''"
    by (simp add: onaudioprocess_def Let_def)
  have d: "blob_data (onaudioprocess inputData) = encode (int16Bytes ?int16)"
    by (simp add: onaudioprocess_def Let_def)
  have d1: "blob_data (onaudioprocess inputData)
              = btoa (map (\<lambda>b. char_of (unat b)) (int16Bytes ?int16))"
    unfolding d by (simp add: encode_def)
  have d2: "decode (blob_data (onaudioprocess inputData)) = Inr (int16Bytes ?int16)"
    unfolding d by (rule decode_encode)
  have l: "length (int16Bytes ?int16) = 2 * length inputData"
    by (simp add: length_int16Bytes)
  have b: "bytesInt16 (int16Bytes ?int16) = ?int16"
    by (rule bytesInt16_int16Bytes)
  have el: "\<forall>x \<in> set inputData.
            sint (toInt16 (x * 32768)) = (if x = 1 then - 32768 else truncToInt (x * 32768)) \<and>
            sint (toInt16 (x * 32768)) mod 65536 = truncToInt (x * 32768) mod 65536 \<and>
            - 32768 \<le> sint (toInt16 (x * 32768)) \<and> sint (toInt16 (x * 32768)) \<le> 32767"
  proof (intro ballI conjI)
    fix x assume x: "x \<in> set inputData"
    with assms have "- 1 \<le> x" "x \<le> 1" by auto
    then show "sint (toInt16 (x * 32768)) = (if x = 1 then - 32768 else truncToInt (x * 32768))"
      by (rule sint_toInt16_sample)
    show "sint (toInt16 (x * 32768)) mod 65536 = truncToInt (x * 32768) mod 65536"
      by (rule sint_toInt16_mod)
    show "- 32768 \<le> sint (toInt16 (x * 32768))"
      using sint_ge[of "toInt16 (x * 32768)"] by simp
    show "sint (toInt16 (x * 32768)) \<le> 32767"
      using sint_lt[of "toInt16 (x * 32768)"] by simp
  qed
  from m d1 d2 l b el show ?thesis by (intro conjI)
qed

theorem onaudioprocess_pcm_witness:
  "list_all (\<lambda>x. - 1 \<le> x \<and> x \<le> 1) sampleFrame \<and>
   mimeType (onaudioprocess sampleFrame) = ''audio/pcm;rate=16000'' \<and>
   map (\<lambda>x. sint (toInt16 (x * 32768))) sampleFrame = [0, 16384, - 16384, - 32768, - 32768, 1, - 1] \<and>
   length (int16Bytes (map (\<lambda>x. toInt16 (x * 32768)) sampleFrame)) = 14"
proof -
  have h: "\<forall>x \<in> set sampleFrame. - 1 \<le> x \<and> x \<le> 1" by (simp add: sampleFrame_def)
  have f: "\<lfloor>3 / 2 :: rat\<rfloor> = 1" by (simp add: floor_eq_iff)
  have c: "\<lceil>- (3 / 2) :: rat\<rceil> = - 1" by (simp add: ceiling_eq_iff)
  note T = onaudioprocess_pcm [OF h]
  from T have "\<forall>x \<in> set sampleFrame.
      sint (toInt16 (x * 32768)) = (if x = 1 then - 32768 else truncToInt (x * 32768))"
    by blast
  then have s: "map (\<lambda>x. sint (toInt16 (x * 32768))) sampleFrame
                  = [0, 16384, - 16384, - 32768, - 32768, 1, - 1]"
    by (simp add: sampleFrame_def truncToInt_def f c)
  from T have "length (int16Bytes (map (\<lambda>x. toInt16 (x * 32768)) sampleFrame))
                 = 2 * length sampleFrame"
    by blast
  then have l: "length (int16Bytes (map (\<lambda>x. toInt16 (x * 32768)) sampleFrame)) = 14"
    by (simp add: sampleFrame_def)
  from T have m: "mimeType (onaudioprocess sampleFrame) = ''audio/pcm;rate=16000''" by blast
  have "list_all (\<lambda>x. - 1 \<le> x \<and> x \<le> 1) sampleFrame"
    using h by (simp add: list_all_iff)
  with m s l show ?thesis by (intro conjI)
qed

text \<open>
  C10. A tool call whose name is none of the eight declared names returns \<open>OK\<close>,
  leaves the application state and the toast unchanged, and adds to the log the
  \<open>tool\<close> entry of the call and nothing else.
\<close>

theorem unknown_tool_returns_OK:
  assumes "fc_name fc \<notin> set toolNames"
  shows "fst (handleToolCall json state now fc s) = ''OK'' \<and>
         appState (snd (handleToolCall json state now fc s)) = appState s \<and>
         toast (snd (handleToolCall json state now fc s)) = toast s \<and>
         actionLogs (snd (handleToolCall json state now fc s)) =
           take 15 (\<lparr>log_id = idSupply s, log_message = ''Agent: Executing '' @ fc_name fc,
                     log_type = Tool, toolName = Some (fc_name fc), log_timestamp = now\<rparr>
                    # actionLogs s)"
  using assms
  by (simp add: handleToolCall_def toolBody_unknown addLog_keeps addLog_actionLogs addLog_toast Let_def)

theorem unknown_tool_returns_OK_witness:
  "fc_name (toolRequest ''playMusic'' noArgs) \<notin> set toolNames \<and>
   fst (handleToolCall noSnapshot emptyWorkspace 0 (toolRequest ''playMusic'' noArgs)
          (initial sampleWorkspace)) = ''OK'' \<and>
   appState (snd (handleToolCall noSnapshot emptyWorkspace 0 (toolRequest ''playMusic'' noArgs)
          (initial sampleWorkspace))) = sampleWorkspace \<and>
   map log_type (actionLogs (snd (handleToolCall noSnapshot emptyWorkspace 0
          (toolRequest ''playMusic'' noArgs) (initial sampleWorkspace)))) = [Tool]"
proof -
  have h: "fc_name (toolRequest ''playMusic'' noArgs) \<notin> set toolNames"
    by (simp add: toolRequest_def toolNames_def)
  from unknown_tool_returns_OK [OF h, of noSnapshot emptyWorkspace 0 "initial sampleWorkspace"] h
  show ?thesis by (simp add: initial_def)
qed

end
